theory Spec2Isabelle
  imports Main "HOL-Library.Word" "HOL-Library.Monad_Syntax"
begin

section \<open>CipherVault extension: the security core\<close>

text \<open>
  A shallow embedding of the extension's security utilities (\<^verbatim>\<open>lib/security\<close>), of the
  cipher and encoding utilities of \<^verbatim>\<open>lib/crypto.ts\<close> and of the PIN handler of the popup.

  Conventions.
  \<^item> JavaScript numbers that hold counts and millisecond timestamps are integers far below
    \<open>2^53\<close>, where doubles are exact: timestamps and minutes are \<open>int\<close>, the failure count
    (only ever written as \<open>0\<close> or as the previous count plus one) is \<open>nat\<close>.
  \<^item> \<^verbatim>\<open>Date.now()\<close> is a parameter \<open>now\<close> of every function that reads the clock.
  \<^item> \<^verbatim>\<open>chrome.storage.local\<close> and \<^verbatim>\<open>chrome.storage.session\<close> are records with one
    optional field per key that the code uses; \<open>None\<close> is an absent key.
  \<^item> \<^verbatim>\<open>import.meta.env\<close> and the platform's SHA-256 are the fields of a record \<open>env\<close> that
    every function depending on them takes as its first argument.
\<close>

subsection \<open>Build-time environment and constants\<close>

text \<open>\<^verbatim>\<open>SECURITY_VALUES\<close> of \<^verbatim>\<open>values/constants.ts\<close>.\<close>

definition SV_MAX_FAILED_ATTEMPTS :: int where
  "SV_MAX_FAILED_ATTEMPTS = 5"

definition SV_MAX_BACKOFF_SECONDS :: int where
  "SV_MAX_BACKOFF_SECONDS = 300"

definition SV_DEFAULT_LOCK_TIMEOUT_MINS :: int where
  "SV_DEFAULT_LOCK_TIMEOUT_MINS = 5"

text \<open>
  The numeric settings are stored after \<^verbatim>\<open>Number(...)\<close>: \<open>None\<close> is \<^verbatim>\<open>NaN\<close> (the variable
  is unset or does not parse). \<open>digest_hex\<close> is the platform's SHA-256 of the UTF-8 encoding
  of a string, rendered as lower-case hexadecimal. \<open>import_jwk\<close> is what the body of
  \<^verbatim>\<open>getKeyFromSession\<close> does with a stored key text: \<open>KeyNull\<close> when \<^verbatim>\<open>JSON.parse\<close> throws
  (caught, \<^verbatim>\<open>null\<close> is returned), \<open>KeyImported\<close> when \<^verbatim>\<open>crypto.subtle.importKey\<close> resolves,
  \<open>KeyRejected\<close> when its promise rejects (it is returned without \<^verbatim>\<open>await\<close>, so the
  rejection reaches the caller).
\<close>

datatype key_lookup = KeyNull | KeyImported | KeyRejected

record env =
  VITE_MAX_FAILED_ATTEMPTS :: "int option"
  VITE_MAX_BACKOFF_SECONDS :: "int option"
  VITE_EXTENSION_PIN_SALT :: "string option"
  digest_hex :: "string \<Rightarrow> string"
  import_jwk :: "string \<Rightarrow> key_lookup"

text \<open>\<^verbatim>\<open>v || d\<close> for a number \<open>v\<close> that may be \<^verbatim>\<open>undefined\<close> or \<^verbatim>\<open>NaN\<close>: \<open>0\<close> is falsy too.\<close>

definition num_or :: "'a::zero option \<Rightarrow> 'a \<Rightarrow> 'a" where
  "num_or v d = (case v of None \<Rightarrow> d | Some x \<Rightarrow> if x = 0 then d else x)"

text \<open>\<^verbatim>\<open>s || d\<close> for a string \<open>s\<close> that may be \<^verbatim>\<open>undefined\<close>: the empty string is falsy.\<close>

definition str_or :: "string option \<Rightarrow> string \<Rightarrow> string" where
  "str_or v d = (case v of None \<Rightarrow> d | Some s \<Rightarrow> if s = [] then d else s)"

definition MAX_FAILED_ATTEMPTS :: "env \<Rightarrow> int" where
  "MAX_FAILED_ATTEMPTS e = num_or (VITE_MAX_FAILED_ATTEMPTS e) SV_MAX_FAILED_ATTEMPTS"

definition MAX_BACKOFF_SECONDS :: "env \<Rightarrow> int" where
  "MAX_BACKOFF_SECONDS e = num_or (VITE_MAX_BACKOFF_SECONDS e) SV_MAX_BACKOFF_SECONDS"

subsection \<open>The two stores\<close>

record local_storage =
  PIN_HASH :: "string option"
  LOCK_TIMEOUT :: "int option"
  FAILED_ATTEMPTS :: "nat option"
  LAST_FAILED_TIME :: "int option"

record session_storage =
  SESSION_KEY :: "string option"
  LAST_ACTIVITY :: "int option"
  masterKeyHash :: "string option"

text \<open>
  \<open>digest_calls\<close> counts the calls of \<^verbatim>\<open>crypto.subtle.digest\<close>: every PIN hash comparison
  starts with one.
\<close>

record world =
  local :: local_storage
  session :: session_storage
  digest_calls :: nat

text \<open>\<^verbatim>\<open>chrome.storage.session.clear()\<close>.\<close>

definition session_clear :: session_storage where
  "session_clear = \<lparr>SESSION_KEY = None, LAST_ACTIVITY = None, masterKeyHash = None\<rparr>"

subsection \<open>Exponential backoff\<close>

definition getBackoffDelay :: "env \<Rightarrow> world \<Rightarrow> int" where
  "getBackoffDelay e w =
     (let currentAttempts = num_or (FAILED_ATTEMPTS (local w)) 0 in
      if currentAttempts = 0 then 0
      else
        let delaySeconds = min (2 ^ currentAttempts) (MAX_BACKOFF_SECONDS e)
        in delaySeconds * 1000)"

record backoff =
  active :: bool
  remainingMs :: int

definition isBackoffActive :: "env \<Rightarrow> int \<Rightarrow> world \<Rightarrow> backoff" where
  "isBackoffActive e now w =
     (let currentAttempts = num_or (FAILED_ATTEMPTS (local w)) 0;
          lastFailedTime = num_or (LAST_FAILED_TIME (local w)) 0
      in
      if currentAttempts = 0 then \<lparr>active = False, remainingMs = 0\<rparr>
      else
        let delayMs = min (2 ^ currentAttempts) (MAX_BACKOFF_SECONDS e) * 1000;
            unlockTime = lastFailedTime + delayMs
        in
        if now < unlockTime then \<lparr>active = True, remainingMs = unlockTime - now\<rparr>
        else \<lparr>active = False, remainingMs = 0\<rparr>)"

subsection \<open>PIN lock\<close>

text \<open>\<^verbatim>\<open>hashPin\<close>: one digest call, on the PIN followed by the salt.\<close>

definition hashPin :: "env \<Rightarrow> string \<Rightarrow> world \<Rightarrow> string \<times> world" where
  "hashPin e pin w =
     (let pinSalt = str_or (VITE_EXTENSION_PIN_SALT e) ''ciphervault_salt''
      in (digest_hex e (pin @ pinSalt), w\<lparr>digest_calls := Suc (digest_calls w)\<rparr>))"

definition setPin :: "env \<Rightarrow> string \<Rightarrow> world \<Rightarrow> world" where
  "setPin e pin w =
     (let (hash, w1) = hashPin e pin w
      in w1\<lparr>local := (local w1)\<lparr>PIN_HASH := Some hash\<rparr>\<rparr>)"

definition updateLastActivity :: "int \<Rightarrow> world \<Rightarrow> world" where
  "updateLastActivity now w = w\<lparr>session := (session w)\<lparr>LAST_ACTIVITY := Some now\<rparr>\<rparr>"

definition clearSecurityData :: "world \<Rightarrow> world" where
  "clearSecurityData w =
     (let w1 = w\<lparr>local := (local w)\<lparr>PIN_HASH := None, FAILED_ATTEMPTS := None\<rparr>\<rparr>
      in w1\<lparr>session := session_clear\<rparr>)"

definition verifyPin :: "env \<Rightarrow> string \<Rightarrow> int \<Rightarrow> world \<Rightarrow> bool \<times> world" where
  "verifyPin e pin now w =
     (let stored = PIN_HASH (local w);
          (hash, w1) = hashPin e pin w
      in
      if stored = Some hash then
        (True, updateLastActivity now (w1\<lparr>local := (local w1)\<lparr>FAILED_ATTEMPTS := Some 0\<rparr>\<rparr>))
      else
        let currentAttempts = num_or (FAILED_ATTEMPTS (local w1)) 0;
            newAttempts = currentAttempts + 1;
            w2 = w1\<lparr>local := (local w1)\<lparr>FAILED_ATTEMPTS := Some newAttempts,
                                          LAST_FAILED_TIME := Some now\<rparr>\<rparr>;
            w3 = (if int newAttempts \<ge> MAX_FAILED_ATTEMPTS e then clearSecurityData w2 else w2)
        in (False, w3))"

text \<open>\<^verbatim>\<open>!!stored[PIN_KEY]\<close>: an absent key and the empty string are falsy.\<close>

definition hasPin :: "world \<Rightarrow> bool" where
  "hasPin w = (case PIN_HASH (local w) of None \<Rightarrow> False | Some h \<Rightarrow> h \<noteq> [])"

definition removePin :: "world \<Rightarrow> world" where
  "removePin w = w\<lparr>local := (local w)\<lparr>PIN_HASH := None\<rparr>\<rparr>"

subsection \<open>Auto-lock timer\<close>

definition setLockTimeout :: "int \<Rightarrow> world \<Rightarrow> world" where
  "setLockTimeout minutes w = w\<lparr>local := (local w)\<lparr>LOCK_TIMEOUT := Some minutes\<rparr>\<rparr>"

definition getLockTimeout :: "world \<Rightarrow> int" where
  "getLockTimeout w = num_or (LOCK_TIMEOUT (local w)) SV_DEFAULT_LOCK_TIMEOUT_MINS"

definition isSessionExpired :: "int \<Rightarrow> world \<Rightarrow> bool" where
  "isSessionExpired now w =
     (let lastActivity = num_or (LAST_ACTIVITY (session w)) 0;
          timeout = getLockTimeout w;
          expiresAt = lastActivity + (timeout * 60 * 1000)
      in now > expiresAt)"

subsection \<open>Session key storage and logout (\<^verbatim>\<open>lib/crypto.ts\<close>, background worker)\<close>

text \<open>
  \<open>SESSION_KEY\<close> is the entry named by \<^verbatim>\<open>SESSION_KEY_NAME\<close>; the name is taken to differ
  from the two other session keys, as the shipped default does.
\<close>

definition storeKeyInSession :: "string \<Rightarrow> world \<Rightarrow> world" where
  "storeKeyInSession exported w = w\<lparr>session := (session w)\<lparr>SESSION_KEY := Some exported\<rparr>\<rparr>"

definition getKeyFromSession :: "env \<Rightarrow> world \<Rightarrow> key_lookup" where
  "getKeyFromSession e w =
     (case SESSION_KEY (session w) of
        None \<Rightarrow> KeyNull
      | Some keyJson \<Rightarrow> if keyJson = [] then KeyNull else import_jwk e keyJson)"

definition clearKeyFromSession :: "world \<Rightarrow> world" where
  "clearKeyFromSession w = w\<lparr>session := (session w)\<lparr>SESSION_KEY := None\<rparr>\<rparr>"

definition secureLogout :: "world \<Rightarrow> world" where
  "secureLogout w = (clearKeyFromSession w)\<lparr>session := session_clear\<rparr>"

definition storeMasterKeyHash :: "string \<Rightarrow> world \<Rightarrow> world" where
  "storeMasterKeyHash keyHash w = w\<lparr>session := (session w)\<lparr>masterKeyHash := Some keyHash\<rparr>\<rparr>"

subsection \<open>The operations that write a store\<close>

datatype operation =
    SetPin string
  | VerifyPin string
  | RemovePin
  | SetLockTimeout int
  | UpdateLastActivity
  | ClearSecurityData
  | StoreKeyInSession string
  | ClearKeyFromSession
  | SecureLogout
  | StoreMasterKeyHash string

fun exec :: "env \<Rightarrow> int \<Rightarrow> operation \<Rightarrow> world \<Rightarrow> world" where
  "exec e now (SetPin p) w = setPin e p w"
| "exec e now (VerifyPin p) w = snd (verifyPin e p now w)"
| "exec e now RemovePin w = removePin w"
| "exec e now (SetLockTimeout minutes) w = setLockTimeout minutes w"
| "exec e now UpdateLastActivity w = updateLastActivity now w"
| "exec e now ClearSecurityData w = clearSecurityData w"
| "exec e now (StoreKeyInSession exported) w = storeKeyInSession exported w"
| "exec e now ClearKeyFromSession w = clearKeyFromSession w"
| "exec e now SecureLogout w = secureLogout w"
| "exec e now (StoreMasterKeyHash keyHash) w = storeMasterKeyHash keyHash w"

text \<open>The failure count as every reader sees it: \<^verbatim>\<open>attempts[FAILED_ATTEMPTS_KEY] || 0\<close>.\<close>

definition failed_count :: "world \<Rightarrow> nat" where
  "failed_count w = num_or (FAILED_ATTEMPTS (local w)) 0"

subsection \<open>The popup's PIN handler\<close>

datatype screen = Loading | Login | PinSetup | PinUnlock | MainScreen | Settings

text \<open>
  The part of the component state that \<^verbatim>\<open>handlePinUnlock\<close> reads or writes.
  \<open>loadSecrets_calls\<close> counts the calls of \<^verbatim>\<open>loadSecrets\<close> (network and decryption, outside
  this model).
\<close>

record popup =
  screen :: screen
  pin :: string
  error :: string
  backoffRemaining :: int
  loadSecrets_calls :: nat

text \<open>Decimal rendering of an integer, as a template literal prints it.\<close>

definition digit_char :: "nat \<Rightarrow> char" where
  "digit_char d = char_of (48 + d)"

function decimal :: "nat \<Rightarrow> string" where
  "decimal n = (if n < 10 then [digit_char n] else decimal (n div 10) @ [digit_char (n mod 10)])"
  by pat_completeness auto
termination
  by (relation "measure (\<lambda>n. n)") auto

definition number_text :: "int \<Rightarrow> string" where
  "number_text i = (if i < 0 then CHR ''-'' # decimal (nat (- i)) else decimal (nat i))"

text \<open>\<^verbatim>\<open>Math.ceil(ms / 1000)\<close> on an integer number of milliseconds.\<close>

definition ceil_div_1000 :: "int \<Rightarrow> int" where
  "ceil_div_1000 ms = - ((- ms) div 1000)"

text \<open>
  \<open>now0\<close> is the clock read by \<^verbatim>\<open>isBackoffActive\<close>, \<open>now1\<close> the later one read inside
  \<^verbatim>\<open>verifyPin\<close>. When the key import rejects, the handler stops with an unhandled rejection
  after \<^verbatim>\<open>verifyPin\<close> has run.
\<close>

definition handlePinUnlock :: "env \<Rightarrow> int \<Rightarrow> int \<Rightarrow> popup \<times> world \<Rightarrow> popup \<times> world" where
  "handlePinUnlock e now0 now1 uw =
     (let (u, w) = uw;
          backoff = isBackoffActive e now0 w
      in
      if active backoff then
        (u\<lparr>backoffRemaining := remainingMs backoff,
           error := ''Brute-force protection: Please wait ''
                    @ number_text (ceil_div_1000 (remainingMs backoff)) @ ''s''\<rparr>, w)
      else
        let (valid, w1) = verifyPin e (pin u) now1 w in
        if valid then
          (case getKeyFromSession e w1 of
             KeyImported \<Rightarrow>
               (u\<lparr>loadSecrets_calls := Suc (loadSecrets_calls u), screen := MainScreen\<rparr>, w1)
           | KeyNull \<Rightarrow>
               (u\<lparr>error := ''Session expired. Please login again.'', screen := Login\<rparr>, w1)
           | KeyRejected \<Rightarrow> (u, w1))
        else
          let waitTime = getBackoffDelay e w1 in
          if waitTime > 0 then
            (u\<lparr>backoffRemaining := waitTime,
               error := ''Invalid PIN. Backoff active: ''
                        @ number_text (waitTime div 1000) @ ''s'',
               pin := []\<rparr>, w1)
          else
            (u\<lparr>error := ''Invalid PIN. 5 failed attempts will clear data.'', pin := []\<rparr>, w1))"

subsection \<open>Concrete environment and states for evaluation\<close>

text \<open>
  An environment with every setting unset. The digest is a stand-in (the reversed text): the
  properties below hold for every digest function, and a concrete one is only needed to
  evaluate the model on sample inputs.
\<close>

definition sample_env :: env where
  "sample_env = \<lparr>VITE_MAX_FAILED_ATTEMPTS = None, VITE_MAX_BACKOFF_SECONDS = None,
                  VITE_EXTENSION_PIN_SALT = None, digest_hex = rev,
                  import_jwk = (\<lambda>_. KeyImported)\<rparr>"

definition sample_world :: "string option \<Rightarrow> nat option \<Rightarrow> int option \<Rightarrow> world" where
  "sample_world pinHash attempts lastFailed =
     \<lparr>local = \<lparr>PIN_HASH = pinHash, LOCK_TIMEOUT = None, FAILED_ATTEMPTS = attempts,
                LAST_FAILED_TIME = lastFailed\<rparr>,
      session = \<lparr>SESSION_KEY = Some ''{}'', LAST_ACTIVITY = Some 1000, masterKeyHash = None\<rparr>,
      digest_calls = 0\<rparr>"

definition sample_popup :: "string \<Rightarrow> popup" where
  "sample_popup p = \<lparr>screen = PinUnlock, pin = p, error = [], backoffRemaining = 0,
                      loadSecrets_calls = 0\<rparr>"

subsection \<open>Phishing detection\<close>

text \<open>
  Texts are \<open>string\<close>s. A hostname is ASCII (the URL parser percent-encodes or punycodes
  everything else), so its characters and the code units that \<^verbatim>\<open>charAt\<close> compares coincide.

  \<open>URL_hostname\<close>, a parameter, stands for the platform's \<^verbatim>\<open>new URL(url).hostname\<close>:
  \<open>None\<close> when the constructor throws, otherwise the hostname, which is empty for a URL
  without a host (\<^verbatim>\<open>file:///...\<close>, \<^verbatim>\<open>about:blank\<close>, \<^verbatim>\<open>mailto:...\<close>).
\<close>

definition lower_char :: "char \<Rightarrow> char" where
  "lower_char c =
     (let k = (of_char c :: nat) in if 65 \<le> k \<and> k \<le> 90 then char_of (k + 32) else c)"

definition toLowerCase :: "string \<Rightarrow> string" where
  "toLowerCase s = map lower_char s"

definition extractDomain :: "(string \<Rightarrow> string option) \<Rightarrow> string \<Rightarrow> string" where
  "extractDomain URL_hostname url =
     (case URL_hostname url of
        Some hostname \<Rightarrow> toLowerCase hostname
      | None \<Rightarrow> [])"

text \<open>
  The matrix of \<^verbatim>\<open>levenshteinDistance\<close> is a list of rows. A JavaScript array grows by one
  when the index just behind its end is assigned. A read outside the cells written so far
  (\<^verbatim>\<open>undefined\<close>, which would make the arithmetic \<^verbatim>\<open>NaN\<close> or throw a \<^verbatim>\<open>TypeError\<close>) and a
  write that would leave a hole are \<open>None\<close>, and \<open>None\<close> propagates to the result.
\<close>

type_synonym matrix = "nat list list"

definition arr_put :: "'a list \<Rightarrow> nat \<Rightarrow> 'a \<Rightarrow> 'a list option" where
  "arr_put xs i v =
     (if i < length xs then Some (xs[i := v])
      else if i = length xs then Some (xs @ [v])
      else None)"

definition mat_get :: "matrix \<Rightarrow> nat \<Rightarrow> nat \<Rightarrow> nat option" where
  "mat_get m i j = (if i < length m \<and> j < length (m ! i) then Some (m ! i ! j) else None)"

definition mat_put :: "matrix \<Rightarrow> nat \<Rightarrow> nat \<Rightarrow> nat \<Rightarrow> matrix option" where
  "mat_put m i j v =
     (if i < length m then map_option (\<lambda>row. m[i := row]) (arr_put (m ! i) j v) else None)"

text \<open>\<^verbatim>\<open>s.charAt(i)\<close>: the one-character text at \<open>i\<close>, empty out of range.\<close>

definition charAt :: "string \<Rightarrow> nat \<Rightarrow> string" where
  "charAt s i = (if i < length s then [s ! i] else [])"

text \<open>\<^verbatim>\<open>for (let i = 0; i <= b.length; i++) matrix[i] = [i]\<close>\<close>

function init_rows :: "string \<Rightarrow> nat \<Rightarrow> matrix \<Rightarrow> matrix option" where
  "init_rows b i m =
     (if i \<le> length b then
        do { m' \<leftarrow> arr_put m i [i]; init_rows b (i + 1) m' }
      else Some m)"
  by pat_completeness auto
termination
  by (relation "measure (\<lambda>(b, i, m). length b + 1 - i)") auto

text \<open>\<^verbatim>\<open>for (let j = 0; j <= a.length; j++) matrix[0][j] = j\<close>\<close>

function init_cols :: "string \<Rightarrow> nat \<Rightarrow> matrix \<Rightarrow> matrix option" where
  "init_cols a j m =
     (if j \<le> length a then
        do { m' \<leftarrow> mat_put m 0 j j; init_cols a (j + 1) m' }
      else Some m)"
  by pat_completeness auto
termination
  by (relation "measure (\<lambda>(a, j, m). length a + 1 - j)") auto

text \<open>The body of the inner loop: the value assigned to \<^verbatim>\<open>matrix[i][j]\<close>.\<close>

definition cell_value :: "string \<Rightarrow> string \<Rightarrow> nat \<Rightarrow> nat \<Rightarrow> matrix \<Rightarrow> nat option" where
  "cell_value a b i j m =
     (if charAt b (i - 1) = charAt a (j - 1) then mat_get m (i - 1) (j - 1)
      else
        do {
          diag \<leftarrow> mat_get m (i - 1) (j - 1);
          left \<leftarrow> mat_get m i (j - 1);
          up \<leftarrow> mat_get m (i - 1) j;
          Some (min (diag + 1) (min (left + 1) (up + 1)))
        })"

function inner_loop :: "string \<Rightarrow> string \<Rightarrow> nat \<Rightarrow> nat \<Rightarrow> matrix \<Rightarrow> matrix option" where
  "inner_loop a b i j m =
     (if j \<le> length a then
        do {
          v \<leftarrow> cell_value a b i j m;
          m' \<leftarrow> mat_put m i j v;
          inner_loop a b i (j + 1) m'
        }
      else Some m)"
  by pat_completeness auto
termination
  by (relation "measure (\<lambda>(a, b, i, j, m). length a + 1 - j)") auto

function outer_loop :: "string \<Rightarrow> string \<Rightarrow> nat \<Rightarrow> matrix \<Rightarrow> matrix option" where
  "outer_loop a b i m =
     (if i \<le> length b then
        do { m' \<leftarrow> inner_loop a b i 1 m; outer_loop a b (i + 1) m' }
      else Some m)"
  by pat_completeness auto
termination
  by (relation "measure (\<lambda>(a, b, i, m). length b + 1 - i)") auto

definition levenshteinDistance :: "string \<Rightarrow> string \<Rightarrow> nat option" where
  "levenshteinDistance a b =
     do {
       m1 \<leftarrow> init_rows b 0 [];
       m2 \<leftarrow> init_cols a 0 m1;
       m3 \<leftarrow> outer_loop a b 1 m2;
       mat_get m3 (length b) (length a)
     }"

record match_result =
  isMatch :: bool
  warning :: "string option"

text \<open>The warning sign and its variation selector (U+26A0 U+FE0F), as UTF-8 bytes.\<close>

definition warning_sign :: string where
  "warning_sign = [CHR 0xE2, CHR 0x9A, CHR 0xA0, CHR 0xEF, CHR 0xB8, CHR 0x8F]"

definition phishing_warning :: "string \<Rightarrow> string \<Rightarrow> string" where
  "phishing_warning currentDomain storedDomain =
     warning_sign @ '' Possible phishing! Domain '' @ [CHR 0x22] @ currentDomain @ [CHR 0x22]
     @ '' looks similar to stored '' @ [CHR 0x22] @ storedDomain @ [CHR 0x22]"

text \<open>The result is \<open>None\<close> only if the distance computation fails.\<close>

definition checkDomainMatch ::
  "(string \<Rightarrow> string option) \<Rightarrow> string \<Rightarrow> string \<Rightarrow> match_result option" where
  "checkDomainMatch URL_hostname currentUrl storedUrl =
     (let currentDomain = extractDomain URL_hostname currentUrl;
          storedDomain = extractDomain URL_hostname storedUrl
      in
      if currentDomain = [] \<or> storedDomain = [] then
        Some \<lparr>isMatch = False, warning = Some ''Invalid URL''\<rparr>
      else if currentDomain = storedDomain then
        Some \<lparr>isMatch = True, warning = None\<rparr>
      else
        do {
          distance \<leftarrow> levenshteinDistance currentDomain storedDomain;
          if distance \<le> 2 \<and> distance > 0 then
            Some \<lparr>isMatch = False,
                  warning = Some (phishing_warning currentDomain storedDomain)\<rparr>
          else
            Some \<lparr>isMatch = False, warning = Some ''Domain mismatch''\<rparr>
        })"

text \<open>
  The hostnames that the platform's URL parser gives for the URLs of the specification's
  scenarios, and for one URL without a host.
\<close>

definition scenario_URL_hostname :: "string \<Rightarrow> string option" where
  "scenario_URL_hostname url =
     (if url = ''https://bank.com/login'' then Some ''bank.com''
      else if url = ''https://bank.com'' then Some ''bank.com''
      else if url = ''https://bank-secure.com'' then Some ''bank-secure.com''
      else if url = ''https://totallydifferent.org'' then Some ''totallydifferent.org''
      else if url = ''https://bamk.com'' then Some ''bamk.com''
      else if url = ''file:///home/user/login.html'' then Some []
      else None)"

subsection \<open>The classic Levenshtein distance\<close>

text \<open>
  The textbook recursion, for comparison with \<^verbatim>\<open>levenshteinDistance\<close>: the distance to or
  from the empty text is the other length; equal first characters cost nothing; otherwise
  one edit plus the cheapest of substitution, insertion and deletion.
\<close>

fun levenshtein :: "'a list \<Rightarrow> 'a list \<Rightarrow> nat" where
  "levenshtein [] ys = length ys"
| "levenshtein (x # xs) [] = Suc (length xs)"
| "levenshtein (x # xs) (y # ys) =
     (if x = y then levenshtein xs ys
      else Suc (min (levenshtein xs ys) (min (levenshtein (x # xs) ys) (levenshtein xs (y # ys)))))"

text \<open>
  Edit scripts: \<open>edits n xs ys\<close> says that \<open>ys\<close> is obtained from \<open>xs\<close> with \<open>n\<close>
  single-character insertions, deletions and substitutions. The Levenshtein distance is the
  least such \<open>n\<close>.
\<close>

inductive edits :: "nat \<Rightarrow> 'a list \<Rightarrow> 'a list \<Rightarrow> bool" where
  e_nil: "edits 0 [] []"
| e_keep: "edits n xs ys \<Longrightarrow> edits n (x # xs) (x # ys)"
| e_subst: "edits n xs ys \<Longrightarrow> edits (Suc n) (x # xs) (y # ys)"
| e_del: "edits n xs ys \<Longrightarrow> edits (Suc n) (x # xs) ys"
| e_ins: "edits n xs ys \<Longrightarrow> edits (Suc n) xs (y # ys)"

text \<open>
  The matrix that the loops of \<^verbatim>\<open>levenshteinDistance\<close> are shown to build: \<open>dist a b i j\<close> is
  the distance between the first \<open>j\<close> characters of \<open>a\<close> and the first \<open>i\<close> of \<open>b\<close>, and
  \<open>dp_state a b i\<close> has the rows below \<open>i\<close> filled in and the others as initialised.
\<close>

definition dist :: "string \<Rightarrow> string \<Rightarrow> nat \<Rightarrow> nat \<Rightarrow> nat" where
  "dist a b i j = levenshtein (take j a) (take i b)"

definition dp_state :: "string \<Rightarrow> string \<Rightarrow> nat \<Rightarrow> matrix" where
  "dp_state a b i =
     map (\<lambda>r. if r < i then map (dist a b r) [0..<length a + 1] else [r]) [0..<length b + 1]"

subsection \<open>Encoding utilities (\<^verbatim>\<open>lib/crypto.ts\<close>)\<close>

text \<open>
  A \<^verbatim>\<open>Uint8Array\<close> is a list of bytes. The ``binary string'' between the typed array and
  \<^verbatim>\<open>btoa\<close>/\<^verbatim>\<open>atob\<close> is a list of UTF-16 code units; the base64 text is a \<open>string\<close>.
\<close>

type_synonym byte = "8 word"
type_synonym code_unit = "16 word"

definition fromCharCode :: "byte \<Rightarrow> code_unit" where
  "fromCharCode n = ucast n"

text \<open>\<^verbatim>\<open>s.charCodeAt(i)\<close>: \<open>None\<close> is \<^verbatim>\<open>NaN\<close> (index out of range).\<close>

definition charCodeAt :: "code_unit list \<Rightarrow> nat \<Rightarrow> code_unit option" where
  "charCodeAt s i = (if i < length s then Some (s ! i) else None)"

text \<open>Storing a number into a \<^verbatim>\<open>Uint8Array\<close>: modulo 256, \<^verbatim>\<open>NaN\<close> becomes 0.\<close>

definition to_uint8 :: "code_unit option \<Rightarrow> byte" where
  "to_uint8 v = (case v of None \<Rightarrow> 0 | Some c \<Rightarrow> ucast c)"

text \<open>
  The platform's \<^verbatim>\<open>btoa\<close> and \<^verbatim>\<open>atob\<close>, after the HTML standard: \<^verbatim>\<open>btoa\<close> throws on a code
  unit above \<open>0xFF\<close> and otherwise is the base64 encoding of RFC 4648 with padding;
  \<^verbatim>\<open>atob\<close> is the standard's forgiving decoding, which throws on malformed input.
  Exceptions are \<open>None\<close>. Byte values are handled as natural numbers below 256.
\<close>

definition base64_alphabet :: string where
  "base64_alphabet = ''ABCDEFGHIJKLMNOPQRSTUVWXYZabcdefghijklmnopqrstuvwxyz0123456789+/''"

definition b64_char :: "nat \<Rightarrow> char" where
  "b64_char n = base64_alphabet ! n"

primrec index_of :: "'a \<Rightarrow> 'a list \<Rightarrow> nat option" where
  "index_of x [] = None"
| "index_of x (y # ys) = (if x = y then Some 0 else map_option Suc (index_of x ys))"

definition b64_index :: "char \<Rightarrow> nat option" where
  "b64_index c = index_of c base64_alphabet"

text \<open>The 6-bit groups of a byte sequence; the last group is filled up with zero bits.\<close>

fun sextets :: "nat list \<Rightarrow> nat list" where
  "sextets (b0 # b1 # b2 # bs) =
     [b0 div 4, (b0 mod 4) * 16 + b1 div 16, (b1 mod 16) * 4 + b2 div 64, b2 mod 64] @ sextets bs"
| "sextets [b0, b1] = [b0 div 4, (b0 mod 4) * 16 + b1 div 16, (b1 mod 16) * 4]"
| "sextets [b0] = [b0 div 4, (b0 mod 4) * 16]"
| "sextets [] = []"

definition padding :: "nat \<Rightarrow> string" where
  "padding n = replicate ((3 - n mod 3) mod 3) (CHR ''='')"

definition b64_encode :: "nat list \<Rightarrow> string" where
  "b64_encode bs = map b64_char (sextets bs) @ padding (length bs)"

definition btoa :: "code_unit list \<Rightarrow> string option" where
  "btoa s = (if list_all (\<lambda>c. c \<le> 0xFF) s then Some (b64_encode (map unat s)) else None)"

definition ascii_whitespace :: "char \<Rightarrow> bool" where
  "ascii_whitespace c = (c \<in> set [CHR 0x09, CHR 0x0A, CHR 0x0C, CHR 0x0D, CHR 0x20])"

text \<open>
  If the length is a multiple of four, one or two trailing \<^verbatim>\<open>=\<close> are removed.
\<close>

definition strip_padding :: "string \<Rightarrow> string" where
  "strip_padding d =
     (if length d mod 4 = 0 then
        (if 2 \<le> length d \<and> last d = CHR ''='' \<and> last (butlast d) = CHR ''=''
           then butlast (butlast d)
         else if d \<noteq> [] \<and> last d = CHR ''='' then butlast d
         else d)
      else d)"

text \<open>
  The bytes of a sequence of 6-bit groups: three bytes from four groups; of a rest of three
  groups (18 bits) the last two bits are dropped, of a rest of two (12 bits) the last four.
\<close>

fun octets :: "nat list \<Rightarrow> nat list" where
  "octets (s0 # s1 # s2 # s3 # ss) =
     [s0 * 4 + s1 div 16, (s1 mod 16) * 16 + s2 div 4, (s2 mod 4) * 64 + s3] @ octets ss"
| "octets [s0, s1, s2] = [s0 * 4 + s1 div 16, (s1 mod 16) * 16 + s2 div 4]"
| "octets [s0, s1] = [s0 * 4 + s1 div 16]"
| "octets [s0] = []"
| "octets [] = []"

definition b64_decode :: "string \<Rightarrow> nat list option" where
  "b64_decode text =
     (let d = strip_padding (filter (\<lambda>c. \<not> ascii_whitespace c) text) in
      if length d mod 4 = 1 then None
      else map_option octets (those (map b64_index d)))"

definition atob :: "string \<Rightarrow> code_unit list option" where
  "atob text = map_option (map of_nat) (b64_decode text)"

text \<open>\<^verbatim>\<open>for (let i = 0; i < buffer.byteLength; i++) binary += String.fromCharCode(buffer[i])\<close>\<close>

function binary_loop :: "byte list \<Rightarrow> nat \<Rightarrow> code_unit list \<Rightarrow> code_unit list" where
  "binary_loop buffer i binary =
     (if i < length buffer
      then binary_loop buffer (i + 1) (binary @ [fromCharCode (buffer ! i)])
      else binary)"
  by pat_completeness auto
termination
  by (relation "measure (\<lambda>(buffer, i, binary). length buffer - i)") auto

definition arrayBufferToBase64 :: "byte list \<Rightarrow> string option" where
  "arrayBufferToBase64 buffer = btoa (binary_loop buffer 0 [])"

text \<open>\<^verbatim>\<open>for (let i = 0; i < len; i++) bytes[i] = binary_string.charCodeAt(i)\<close>\<close>

function bytes_loop :: "code_unit list \<Rightarrow> nat \<Rightarrow> nat \<Rightarrow> byte list \<Rightarrow> byte list" where
  "bytes_loop binary_string len i bytes =
     (if i < len
      then bytes_loop binary_string len (i + 1) (bytes[i := to_uint8 (charCodeAt binary_string i)])
      else bytes)"
  by pat_completeness auto
termination
  by (relation "measure (\<lambda>(binary_string, len, i, bytes). len - i)") auto

definition base64ToArrayBuffer :: "string \<Rightarrow> byte list option" where
  "base64ToArrayBuffer base64 =
     do {
       binary_string \<leftarrow> atob base64;
       let len = length binary_string;
       let bytes = replicate len 0;
       Some (bytes_loop binary_string len 0 bytes)
     }"

subsection \<open>Secret cipher (\<^verbatim>\<open>lib/crypto.ts\<close>)\<close>








declare init_rows.simps [simp del] init_cols.simps [simp del] inner_loop.simps [simp del]
  outer_loop.simps [simp del] binary_loop.simps [simp del] bytes_loop.simps [simp del]
  decimal.simps [simp del]

section \<open>Properties\<close>

subsection \<open>Session expiry\<close>

text \<open>
  C1 (as the specification states it, refuted): the session would be reported expired at the
  instant \<open>now = lastActivity + timeoutMinutes * 60000\<close>. With a last activity at
  \<open>1000\<close> ms and a timeout of \<open>5\<close> minutes, \<^verbatim>\<open>isSessionExpired\<close> at \<open>301000\<close> ms answers
  \<open>False\<close>.
\<close>

theorem isSessionExpired_boundary_counterexample:
  "301000 = 1000 + 5 * (60000::int) \<and>
   \<not> isSessionExpired 301000
       \<lparr>local = \<lparr>PIN_HASH = None, LOCK_TIMEOUT = Some 5, FAILED_ATTEMPTS = None,
                  LAST_FAILED_TIME = None\<rparr>,
        session = \<lparr>SESSION_KEY = None, LAST_ACTIVITY = Some 1000, masterKeyHash = None\<rparr>,
        digest_calls = 0\<rparr>"
  by (simp add: isSessionExpired_def getLockTimeout_def num_or_def)

text \<open>
  C1 (amended): \<^verbatim>\<open>isSessionExpired\<close> answers true exactly when
  \<open>now > lastActivity + timeoutMinutes * 60000\<close>, where \<open>lastActivity\<close> is the stored
  timestamp (\<open>0\<close> when absent) and \<open>timeoutMinutes\<close> is what \<^verbatim>\<open>getLockTimeout\<close> returns.
  At the instant \<open>now = lastActivity + timeoutMinutes * 60000\<close> the session is not expired
  (exclusive bound); one millisecond later it is.
\<close>

theorem isSessionExpired_strict:
  "isSessionExpired now w
     = (now > num_or (LAST_ACTIVITY (session w)) 0 + getLockTimeout w * 60000)
   \<and> \<not> isSessionExpired (num_or (LAST_ACTIVITY (session w)) 0 + getLockTimeout w * 60000) w
   \<and> isSessionExpired (num_or (LAST_ACTIVITY (session w)) 0 + getLockTimeout w * 60000 + 1) w"
  by (simp add: isSessionExpired_def Let_def mult.commute)

subsection \<open>Backoff delay\<close>

text \<open>
  C5: with the shipped ceiling (\<^verbatim>\<open>VITE_MAX_BACKOFF_SECONDS\<close> unset, so
  \<^verbatim>\<open>MAX_BACKOFF_SECONDS\<close> is \<open>300\<close>) and \<open>n\<close> failures recorded: for \<open>n \<ge> 1\<close>,
  \<^verbatim>\<open>getBackoffDelay\<close> is \<open>min(2^n, 300)\<close> seconds in milliseconds and \<^verbatim>\<open>isBackoffActive\<close>
  reports active exactly when \<open>now\<close> is before the last failure plus that delay (the
  remaining wait being the difference); for \<open>n = 0\<close> the delay is \<open>0\<close> and backoff is
  not active at any time.
\<close>

theorem backoff_delay_formula:
  "VITE_MAX_BACKOFF_SECONDS e = None \<Longrightarrow> failed_count w = n \<Longrightarrow>
   getBackoffDelay e w = (if n = 0 then 0 else min (2 ^ n) 300 * 1000)
   \<and> active (isBackoffActive e now w)
       = (n \<noteq> 0 \<and> now < num_or (LAST_FAILED_TIME (local w)) 0 + getBackoffDelay e w)
   \<and> remainingMs (isBackoffActive e now w)
       = (if active (isBackoffActive e now w)
          then num_or (LAST_FAILED_TIME (local w)) 0 + getBackoffDelay e w - now else 0)"
  by (simp add: getBackoffDelay_def isBackoffActive_def MAX_BACKOFF_SECONDS_def failed_count_def
      SV_MAX_BACKOFF_SECONDS_def num_or_def Let_def)

text \<open>
  Witness for C5: three failures, the last at \<open>5000\<close> ms. The delay is \<open>8\<close> s; backoff is
  active at \<open>12999\<close> ms and over at \<open>13000\<close> ms.
\<close>

theorem backoff_delay_formula_witness:
  "getBackoffDelay sample_env (sample_world None (Some 3) (Some 5000)) = 8000
   \<and> active (isBackoffActive sample_env 12999 (sample_world None (Some 3) (Some 5000)))
   \<and> \<not> active (isBackoffActive sample_env 13000 (sample_world None (Some 3) (Some 5000)))
   \<and> remainingMs (isBackoffActive sample_env 12000 (sample_world None (Some 3) (Some 5000)))
       = 1000"
  using backoff_delay_formula [of sample_env "sample_world None (Some 3) (Some 5000)" 3 12999]
    backoff_delay_formula [of sample_env "sample_world None (Some 3) (Some 5000)" 3 13000]
    backoff_delay_formula [of sample_env "sample_world None (Some 3) (Some 5000)" 3 12000]
  by (simp add: sample_env_def sample_world_def failed_count_def num_or_def)

subsection \<open>PIN verification\<close>

text \<open>What \<^verbatim>\<open>verifyPin\<close> answers, and the state it leaves on either path.\<close>

lemma verifyPin_result:
  "fst (verifyPin e p now w)
     = (PIN_HASH (local w)
          = Some (digest_hex e (p @ str_or (VITE_EXTENSION_PIN_SALT e) ''ciphervault_salt'')))"
  by (simp add: verifyPin_def hashPin_def Let_def)

lemma verifyPin_success:
  "fst (verifyPin e p now w) \<Longrightarrow>
   snd (verifyPin e p now w) =
     w\<lparr>digest_calls := Suc (digest_calls w),
       local := (local w)\<lparr>FAILED_ATTEMPTS := Some 0\<rparr>,
       session := (session w)\<lparr>LAST_ACTIVITY := Some now\<rparr>\<rparr>"
  by (simp add: verifyPin_def hashPin_def updateLastActivity_def Let_def split: if_splits)

lemma verifyPin_fail:
  "\<not> fst (verifyPin e p now w) \<Longrightarrow>
   snd (verifyPin e p now w) =
     (let w2 = w\<lparr>digest_calls := Suc (digest_calls w),
                  local := (local w)\<lparr>FAILED_ATTEMPTS := Some (failed_count w + 1),
                                      LAST_FAILED_TIME := Some now\<rparr>\<rparr>
      in if MAX_FAILED_ATTEMPTS e \<le> int (failed_count w) + 1 then clearSecurityData w2 else w2)"
  by (simp add: verifyPin_def hashPin_def failed_count_def Let_def split: if_splits)

lemma decimal_digit: "n < 10 \<Longrightarrow> decimal n = [digit_char n]"
  by (subst decimal.simps) simp

text \<open>
  C2: with the shipped ceiling of \<open>300\<close> s, a recorded count of at least one and the clock
  still before the last failure plus \<open>min(2^count, 300)\<close> seconds, the PIN handler
  \<^verbatim>\<open>handlePinUnlock\<close> (the only caller of \<^verbatim>\<open>verifyPin\<close>, and the place of the gate) rejects
  the attempt: both stores are left exactly as they were, so the count and the time of the
  last failure are unchanged and no digest was computed, and the remaining wait is reported
  in \<^verbatim>\<open>backoffRemaining\<close> and, rounded up to seconds, in the error message.
\<close>

theorem handlePinUnlock_backoff_rejects:
  assumes "VITE_MAX_BACKOFF_SECONDS e = None"
    and "FAILED_ATTEMPTS (local w) = Some count" and "1 \<le> count"
    and "now0 < num_or (LAST_FAILED_TIME (local w)) 0 + min (2 ^ count) 300 * 1000"
  shows "snd (handlePinUnlock e now0 now1 (u, w)) = w
    \<and> digest_calls (snd (handlePinUnlock e now0 now1 (u, w))) = digest_calls w
    \<and> FAILED_ATTEMPTS (local (snd (handlePinUnlock e now0 now1 (u, w)))) = Some count
    \<and> LAST_FAILED_TIME (local (snd (handlePinUnlock e now0 now1 (u, w))))
        = LAST_FAILED_TIME (local w)
    \<and> fst (handlePinUnlock e now0 now1 (u, w))
        = u\<lparr>backoffRemaining :=
               num_or (LAST_FAILED_TIME (local w)) 0 + min (2 ^ count) 300 * 1000 - now0,
             error := ''Brute-force protection: Please wait ''
               @ number_text (ceil_div_1000
                   (num_or (LAST_FAILED_TIME (local w)) 0 + min (2 ^ count) 300 * 1000 - now0))
               @ ''s''\<rparr>"
proof -
  have "isBackoffActive e now0 w =
          \<lparr>active = True,
           remainingMs = num_or (LAST_FAILED_TIME (local w)) 0 + min (2 ^ count) 300 * 1000 - now0\<rparr>"
    using assms
    by (simp add: isBackoffActive_def MAX_BACKOFF_SECONDS_def SV_MAX_BACKOFF_SECONDS_def
        num_or_def Let_def)
  then show ?thesis
    using assms(2) by (simp add: handlePinUnlock_def Let_def)
qed

text \<open>
  Witness for C2: three failures, the last at \<open>5000\<close> ms, and an attempt at \<open>6000\<close> ms:
  the stores are untouched and the handler reports \<open>7000\<close> ms, ``7s''.
\<close>

theorem handlePinUnlock_backoff_rejects_witness:
  "snd (handlePinUnlock sample_env 6000 6001
          (sample_popup ''1234'', sample_world (Some ''x'') (Some 3) (Some 5000)))
     = sample_world (Some ''x'') (Some 3) (Some 5000)
   \<and> fst (handlePinUnlock sample_env 6000 6001
          (sample_popup ''1234'', sample_world (Some ''x'') (Some 3) (Some 5000)))
     = (sample_popup ''1234'')\<lparr>backoffRemaining := 7000,
          error := ''Brute-force protection: Please wait 7s''\<rparr>"
proof -
  let ?w = "sample_world (Some ''x'') (Some 3) (Some 5000)"
  have h1: "VITE_MAX_BACKOFF_SECONDS sample_env = None"
    by (simp add: sample_env_def)
  have h2: "FAILED_ATTEMPTS (local ?w) = Some 3"
    by (simp add: sample_world_def)
  have h3: "1 \<le> (3::nat)"
    by simp
  have r: "num_or (LAST_FAILED_TIME (local ?w)) 0 + min (2 ^ 3) 300 * 1000 - 6000 = 7000"
    by (simp add: sample_world_def num_or_def)
  then have h4: "6000 < num_or (LAST_FAILED_TIME (local ?w)) 0 + min (2 ^ 3) 300 * 1000"
    by simp
  have n: "number_text (ceil_div_1000 7000) = ''7''"
    by code_simp
  show ?thesis
    using handlePinUnlock_backoff_rejects [OF h1 h2 h3 h4, of 6001 "sample_popup ''1234''"]
    unfolding r n by simp
qed

text \<open>
  C3 (a defect of the code): at exactly the configured maximum the PIN record and the whole
  failed-attempt state, count and time of the last failure, are to be wiped, as the header
  of \<^verbatim>\<open>clearSecurityData\<close>, ``Clear All Security Data'', announces. \<^verbatim>\<open>verifyPin\<close> writes the
  count and the time together, but the removal list of \<^verbatim>\<open>clearSecurityData\<close> names the count
  only. Evaluated on four recorded failures with the shipped maximum of five and a wrong PIN
  at \<open>9000\<close> ms: the PIN hash and the count are removed, and the time of the last failure
  is still in the store, as \<open>9000\<close>. (The stored hash is that of the PIN \<^verbatim>\<open>1234\<close> under the
  digest of \<open>sample_env\<close>.)
\<close>

theorem verifyPin_lockout_keeps_timestamp:
  "\<not> fst (verifyPin sample_env ''0000'' 9000
            (sample_world (Some (rev ''1234ciphervault_salt'')) (Some 4) (Some 5000)))
   \<and> MAX_FAILED_ATTEMPTS sample_env = 4 + 1
   \<and> PIN_HASH (local (snd (verifyPin sample_env ''0000'' 9000
            (sample_world (Some (rev ''1234ciphervault_salt'')) (Some 4) (Some 5000))))) = None
   \<and> FAILED_ATTEMPTS (local (snd (verifyPin sample_env ''0000'' 9000
            (sample_world (Some (rev ''1234ciphervault_salt'')) (Some 4) (Some 5000))))) = None
   \<and> LAST_FAILED_TIME (local (snd (verifyPin sample_env ''0000'' 9000
            (sample_world (Some (rev ''1234ciphervault_salt'')) (Some 4) (Some 5000)))))
       = Some 9000"
  by (simp add: verifyPin_def hashPin_def sample_env_def sample_world_def str_or_def num_or_def
      MAX_FAILED_ATTEMPTS_def SV_MAX_FAILED_ATTEMPTS_def clearSecurityData_def Let_def)

text \<open>
  The part of the wipe that the code does perform: when a failed \<^verbatim>\<open>verifyPin\<close> brings the
  count to the configured maximum, the stored PIN hash and the count are removed, the
  session store is cleared, and a subsequent \<^verbatim>\<open>hasPin\<close> answers false.
\<close>

lemma verifyPin_lockout_removes_pin_and_count:
  assumes "\<not> fst (verifyPin e p now w)"
    and "int (failed_count w) + 1 = MAX_FAILED_ATTEMPTS e"
  shows "PIN_HASH (local (snd (verifyPin e p now w))) = None
    \<and> FAILED_ATTEMPTS (local (snd (verifyPin e p now w))) = None
    \<and> session (snd (verifyPin e p now w)) = session_clear
    \<and> \<not> hasPin (snd (verifyPin e p now w))"
  using assms by (simp add: verifyPin_fail clearSecurityData_def hasPin_def Let_def)

text \<open>
  C8: over the operations that write a store, the count (as read through \<^verbatim>\<open>|| 0\<close>) goes
  from nonzero to zero only in a \<^verbatim>\<open>verifyPin\<close> that succeeds, or in a security-data clear:
  \<^verbatim>\<open>clearSecurityData\<close> itself, or the call of it that a failed \<^verbatim>\<open>verifyPin\<close> makes when the
  count reaches the maximum. Every successful \<^verbatim>\<open>verifyPin\<close> stores a count of \<open>0\<close>, whatever
  it was before. Every operation other than \<^verbatim>\<open>verifyPin\<close> and \<^verbatim>\<open>clearSecurityData\<close> leaves
  the stored count as it is.
\<close>

theorem failed_count_reset_only:
  "(failed_count w \<noteq> 0 \<and> failed_count (exec e now op w) = 0 \<longrightarrow>
      (\<exists>p. op = VerifyPin p \<and> fst (verifyPin e p now w))
      \<or> (\<exists>p. op = VerifyPin p \<and> \<not> fst (verifyPin e p now w)
              \<and> MAX_FAILED_ATTEMPTS e \<le> int (failed_count w) + 1
              \<and> (\<exists>w2. exec e now op w = clearSecurityData w2))
      \<or> op = ClearSecurityData)
   \<and> (fst (verifyPin e p now w) \<longrightarrow>
        FAILED_ATTEMPTS (local (snd (verifyPin e p now w))) = Some 0
        \<and> failed_count (snd (verifyPin e p now w)) = 0)
   \<and> ((\<forall>q. op \<noteq> VerifyPin q) \<and> op \<noteq> ClearSecurityData \<longrightarrow>
        FAILED_ATTEMPTS (local (exec e now op w)) = FAILED_ATTEMPTS (local w))"
proof (intro conjI impI)
  assume a: "failed_count w \<noteq> 0 \<and> failed_count (exec e now op w) = 0"
  show "(\<exists>p. op = VerifyPin p \<and> fst (verifyPin e p now w))
      \<or> (\<exists>p. op = VerifyPin p \<and> \<not> fst (verifyPin e p now w)
              \<and> MAX_FAILED_ATTEMPTS e \<le> int (failed_count w) + 1
              \<and> (\<exists>w2. exec e now op w = clearSecurityData w2))
      \<or> op = ClearSecurityData"
  proof (cases op)
    case (VerifyPin q)
    show ?thesis
    proof (cases "fst (verifyPin e q now w)")
      case True
      with VerifyPin show ?thesis by simp
    next
      case False
      have "MAX_FAILED_ATTEMPTS e \<le> int (failed_count w) + 1"
      proof (rule ccontr)
        assume "\<not> MAX_FAILED_ATTEMPTS e \<le> int (failed_count w) + 1"
        then have "failed_count (exec e now op w) = failed_count w + 1"
          using VerifyPin False by (simp add: verifyPin_fail failed_count_def num_or_def)
        with a show False by simp
      qed
      moreover from this have "\<exists>w2. exec e now op w = clearSecurityData w2"
        using VerifyPin False by (auto simp: verifyPin_fail Let_def)
      ultimately show ?thesis using VerifyPin False by simp
    qed
  qed (use a in \<open>auto simp: failed_count_def setPin_def hashPin_def removePin_def
        setLockTimeout_def updateLastActivity_def storeKeyInSession_def clearKeyFromSession_def
        secureLogout_def storeMasterKeyHash_def\<close>)
next
  assume "fst (verifyPin e p now w)"
  then show "FAILED_ATTEMPTS (local (snd (verifyPin e p now w))) = Some 0"
    by (simp add: verifyPin_success)
next
  assume "fst (verifyPin e p now w)"
  then show "failed_count (snd (verifyPin e p now w)) = 0"
    by (simp add: verifyPin_success failed_count_def num_or_def)
next
  assume "(\<forall>q. op \<noteq> VerifyPin q) \<and> op \<noteq> ClearSecurityData"
  then show "FAILED_ATTEMPTS (local (exec e now op w)) = FAILED_ATTEMPTS (local w)"
    by (cases op) (simp_all add: setPin_def hashPin_def removePin_def
        setLockTimeout_def updateLastActivity_def storeKeyInSession_def clearKeyFromSession_def
        secureLogout_def storeMasterKeyHash_def)
qed

text \<open>
  Witness for C8: with three failures recorded, the right PIN resets the count to \<open>0\<close>, and
  \<^verbatim>\<open>removePin\<close> leaves it at \<open>3\<close>.
\<close>

theorem failed_count_reset_only_witness:
  "failed_count (sample_world (Some (rev ''1234ciphervault_salt'')) (Some 3) (Some 5000)) \<noteq> 0
   \<and> failed_count (exec sample_env 9000 (VerifyPin ''1234'')
        (sample_world (Some (rev ''1234ciphervault_salt'')) (Some 3) (Some 5000))) = 0
   \<and> fst (verifyPin sample_env ''1234'' 9000
        (sample_world (Some (rev ''1234ciphervault_salt'')) (Some 3) (Some 5000)))
   \<and> FAILED_ATTEMPTS (local (snd (verifyPin sample_env ''1234'' 9000
        (sample_world (Some (rev ''1234ciphervault_salt'')) (Some 3) (Some 5000))))) = Some 0
   \<and> FAILED_ATTEMPTS (local (exec sample_env 9000 RemovePin
        (sample_world (Some (rev ''1234ciphervault_salt'')) (Some 3) (Some 5000)))) = Some 3"
  using failed_count_reset_only
    [of "sample_world (Some (rev ''1234ciphervault_salt'')) (Some 3) (Some 5000)"
        sample_env 9000 "VerifyPin ''1234''" "''1234''"]
    failed_count_reset_only
    [of "sample_world (Some (rev ''1234ciphervault_salt'')) (Some 3) (Some 5000)"
        sample_env 9000 RemovePin "''1234''"]
  by (simp add: verifyPin_result sample_env_def sample_world_def str_or_def failed_count_def
      num_or_def)

text \<open>
  C9: when no PIN hash is stored, \<^verbatim>\<open>verifyPin\<close> answers false for every PIN and records the
  time of the failure. If the incremented count is still below the configured maximum it is
  stored and the session store is untouched; once it reaches the maximum the destructive
  clear fires: the failed-attempt entry is removed and the session store is emptied, the
  cached session key included.
\<close>

theorem verifyPin_without_pin:
  assumes "PIN_HASH (local w) = None"
  shows "\<not> fst (verifyPin e p now w)
    \<and> LAST_FAILED_TIME (local (snd (verifyPin e p now w))) = Some now
    \<and> (if MAX_FAILED_ATTEMPTS e \<le> int (failed_count w) + 1
       then FAILED_ATTEMPTS (local (snd (verifyPin e p now w))) = None
          \<and> session (snd (verifyPin e p now w)) = session_clear
          \<and> SESSION_KEY (session (snd (verifyPin e p now w))) = None
       else FAILED_ATTEMPTS (local (snd (verifyPin e p now w))) = Some (failed_count w + 1)
          \<and> session (snd (verifyPin e p now w)) = session w)"
proof -
  have f: "\<not> fst (verifyPin e p now w)"
    using assms by (simp add: verifyPin_result)
  then show ?thesis
    by (simp add: verifyPin_fail clearSecurityData_def session_clear_def Let_def)
qed

text \<open>
  Witness for C9: without a PIN, the fifth failure removes the count and the session key
  that was cached; the third failure stores a count of \<open>3\<close>.
\<close>

theorem verifyPin_without_pin_witness:
  "\<not> fst (verifyPin sample_env ''1234'' 9000 (sample_world None (Some 4) (Some 5000)))
   \<and> FAILED_ATTEMPTS (local (snd (verifyPin sample_env ''1234'' 9000
        (sample_world None (Some 4) (Some 5000))))) = None
   \<and> SESSION_KEY (session (snd (verifyPin sample_env ''1234'' 9000
        (sample_world None (Some 4) (Some 5000))))) = None
   \<and> SESSION_KEY (session (sample_world None (Some 4) (Some 5000))) = Some ''{}''
   \<and> FAILED_ATTEMPTS (local (snd (verifyPin sample_env ''1234'' 9000
        (sample_world None (Some 2) (Some 5000))))) = Some 3"
proof -
  have h: "PIN_HASH (local (sample_world None a t)) = None" for a t
    by (simp add: sample_world_def)
  have m: "MAX_FAILED_ATTEMPTS sample_env = 5"
    by (simp add: sample_env_def MAX_FAILED_ATTEMPTS_def SV_MAX_FAILED_ATTEMPTS_def num_or_def)
  have c: "failed_count (sample_world None (Some 4) (Some 5000)) = 4"
    "failed_count (sample_world None (Some 2) (Some 5000)) = 2"
    by (simp_all add: sample_world_def failed_count_def num_or_def)
  have k: "SESSION_KEY (session (sample_world None (Some 4) (Some 5000))) = Some ''{}''"
    by (simp add: sample_world_def)
  show ?thesis
    using verifyPin_without_pin [OF h, of sample_env "''1234''" 9000 "Some 4" "Some 5000"]
      verifyPin_without_pin [OF h, of sample_env "''1234''" 9000 "Some 2" "Some 5000"]
    unfolding m c by (simp add: k session_clear_def)
qed

subsection \<open>The Levenshtein distance is the least number of edits\<close>

lemma lev_Nil2: "levenshtein xs [] = length xs"
  by (cases xs) simp_all

lemma lev_step:
  "(\<forall>x. levenshtein (x # xs) ys \<le> Suc (levenshtein xs ys))
   \<and> (\<forall>y. levenshtein xs (y # ys) \<le> Suc (levenshtein xs ys))
   \<and> (\<forall>x. levenshtein xs ys \<le> Suc (levenshtein (x # xs) ys))
   \<and> (\<forall>y. levenshtein xs ys \<le> Suc (levenshtein xs (y # ys)))"
proof (induction "length xs + length ys" arbitrary: xs ys rule: less_induct)
  case less
  note IH = less.hyps
  have P1: "levenshtein (x # xs) ys \<le> Suc (levenshtein xs ys)" for x
  proof (cases ys)
    case Nil
    then show ?thesis by (simp add: lev_Nil2)
  next
    case (Cons y ys')
    have "levenshtein xs ys' \<le> Suc (levenshtein xs (y # ys'))"
      using IH [of xs ys'] Cons by simp
    then show ?thesis using Cons by (auto simp: min_le_iff_disj)
  qed
  have P2: "levenshtein xs (y # ys) \<le> Suc (levenshtein xs ys)" for y
  proof (cases xs)
    case Nil
    then show ?thesis by simp
  next
    case (Cons x xs')
    have "levenshtein xs' ys \<le> Suc (levenshtein (x # xs') ys)"
      using IH [of xs' ys] Cons by simp
    then show ?thesis using Cons by (auto simp: min_le_iff_disj)
  qed
  have Q1: "levenshtein xs ys \<le> Suc (levenshtein (x # xs) ys)" for x
  proof (cases ys)
    case Nil
    then show ?thesis by (simp add: lev_Nil2)
  next
    case (Cons y ys')
    have a: "levenshtein xs (y # ys') \<le> Suc (levenshtein xs ys')"
      and b: "levenshtein xs ys' \<le> Suc (levenshtein (x # xs) ys')"
      using IH [of xs ys'] Cons by simp_all
    show ?thesis using Cons a b by (auto simp: min_def)
  qed
  have Q2: "levenshtein xs ys \<le> Suc (levenshtein xs (y # ys))" for y
  proof (cases xs)
    case Nil
    then show ?thesis by simp
  next
    case (Cons x xs')
    have a: "levenshtein (x # xs') ys \<le> Suc (levenshtein xs' ys)"
      and b: "levenshtein xs' ys \<le> Suc (levenshtein xs' (y # ys))"
      using IH [of xs' ys] Cons by simp_all
    show ?thesis using Cons a b by (auto simp: min_def)
  qed
  show ?case using P1 P2 Q1 Q2 by blast
qed

lemma edits_from_Nil: "edits (length ys) [] ys"
  by (induction ys) (auto intro: edits.intros)

lemma edits_to_Nil: "edits (length xs) xs []"
  by (induction xs) (auto intro: edits.intros)

lemma edits_levenshtein: "edits (levenshtein xs ys) xs ys"
proof (induction xs ys rule: levenshtein.induct)
  case (1 ys)
  show ?case by (simp add: edits_from_Nil)
next
  case (2 x xs)
  show ?case using edits_to_Nil [of "x # xs"] by simp
next
  case (3 x xs y ys)
  show ?case
  proof (cases "x = y")
    case True
    with 3 show ?thesis by (simp add: e_keep)
  next
    case False
    with 3 have "edits (Suc (levenshtein xs ys)) (x # xs) (y # ys)"
      "edits (Suc (levenshtein (x # xs) ys)) (x # xs) (y # ys)"
      "edits (Suc (levenshtein xs (y # ys))) (x # xs) (y # ys)"
      by (auto intro: edits.intros)
    with False show ?thesis by (simp add: min_def)
  qed
qed

lemma levenshtein_le_edits: "edits n xs ys \<Longrightarrow> levenshtein xs ys \<le> n"
proof (induction rule: edits.induct)
  case e_nil
  show ?case by simp
next
  case (e_keep n xs ys x)
  then show ?case by simp
next
  case (e_subst n xs ys x y)
  then show ?case by (simp add: min_le_iff_disj)
next
  case (e_del n xs ys x)
  then show ?case using lev_step [of xs ys] by (meson Suc_le_mono le_trans)
next
  case (e_ins n xs ys y)
  then show ?case using lev_step [of xs ys] by (meson Suc_le_mono le_trans)
qed

text \<open>
  Hence \<open>levenshtein xs ys\<close> is the least number of single-character edits that turn
  \<open>xs\<close> into \<open>ys\<close>, and it is zero exactly for equal texts.
\<close>

lemma levenshtein_least_edits:
  "edits (levenshtein xs ys) xs ys \<and> (\<forall>n. edits n xs ys \<longrightarrow> levenshtein xs ys \<le> n)"
  using edits_levenshtein levenshtein_le_edits by blast

lemma levenshtein_same: "levenshtein xs xs = 0"
  by (induction xs) simp_all

lemma levenshtein_zero: "(levenshtein xs ys = 0) = (xs = ys)"
proof
  show "levenshtein xs ys = 0 \<Longrightarrow> xs = ys"
    by (induction xs ys rule: levenshtein.induct) (auto split: if_splits)
next
  show "xs = ys \<Longrightarrow> levenshtein xs ys = 0"
    by (simp add: levenshtein_same)
qed

text \<open>
  The distance does not change when both texts are reversed, which gives the recurrence on
  the last characters that the matrix of \<^verbatim>\<open>levenshteinDistance\<close> follows.
\<close>

lemma edits_append:
  "edits n xs ys \<Longrightarrow> edits m xs' ys' \<Longrightarrow> edits (n + m) (xs @ xs') (ys @ ys')"
  by (induction rule: edits.induct) (auto intro: edits.intros)

lemma edits_rev: "edits n xs ys \<Longrightarrow> edits n (rev xs) (rev ys)"
proof (induction rule: edits.induct)
  case e_nil
  show ?case by (simp add: edits.e_nil)
next
  case (e_keep n xs ys x)
  have "edits 0 [x] [x]" by (intro edits.intros)
  from edits_append [OF e_keep.IH this] show ?case by simp
next
  case (e_subst n xs ys x y)
  have "edits (Suc 0) [x] [y]" by (intro edits.intros)
  from edits_append [OF e_subst.IH this] show ?case by simp
next
  case (e_del n xs ys x)
  have "edits (Suc 0) [x] []" by (intro edits.intros)
  from edits_append [OF e_del.IH this] show ?case by simp
next
  case (e_ins n xs ys y)
  have "edits (Suc 0) [] [y]" by (intro edits.intros)
  from edits_append [OF e_ins.IH this] show ?case by simp
qed

lemma levenshtein_rev: "levenshtein (rev xs) (rev ys) = levenshtein xs ys"
proof (rule le_antisym)
  show "levenshtein (rev xs) (rev ys) \<le> levenshtein xs ys"
    by (rule levenshtein_le_edits [OF edits_rev [OF edits_levenshtein]])
  have "levenshtein (rev (rev xs)) (rev (rev ys)) \<le> levenshtein (rev xs) (rev ys)"
    by (rule levenshtein_le_edits [OF edits_rev [OF edits_levenshtein]])
  then show "levenshtein xs ys \<le> levenshtein (rev xs) (rev ys)" by simp
qed

lemma levenshtein_snoc:
  "levenshtein (xs @ [x]) (ys @ [y]) =
     (if x = y then levenshtein xs ys
      else Suc (min (levenshtein xs ys)
                 (min (levenshtein (xs @ [x]) ys) (levenshtein xs (ys @ [y])))))"
proof -
  have "levenshtein (xs @ [x]) (ys @ [y]) = levenshtein (x # rev xs) (y # rev ys)"
    using levenshtein_rev [of "xs @ [x]" "ys @ [y]"] by simp
  moreover have "levenshtein (x # rev xs) (rev ys) = levenshtein (xs @ [x]) ys"
    using levenshtein_rev [of "xs @ [x]" ys] by simp
  moreover have "levenshtein (rev xs) (y # rev ys) = levenshtein xs (ys @ [y])"
    using levenshtein_rev [of xs "ys @ [y]"] by simp
  ultimately show ?thesis by (simp add: levenshtein_rev)
qed

subsection \<open>\<^verbatim>\<open>levenshteinDistance\<close> computes the classic distance\<close>

text \<open>
  Each loop is followed by computation induction; the matrix is \<open>dp_state a b i\<close> when the
  outer loop reaches row \<open>i\<close>, and no read leaves the cells written so far.
\<close>

lemma init_rows_from:
  "length m = i \<Longrightarrow> i \<le> length b + 1 \<Longrightarrow>
   init_rows b i m = Some (m @ map (\<lambda>k. [k]) [i..<length b + 1])"
proof (induction b i m rule: init_rows.induct)
  case (1 b i m)
  show ?case
  proof (cases "i \<le> length b")
    case True
    have put: "arr_put m i [i] = Some (m @ [[i]])"
      using "1.prems" by (simp add: arr_put_def)
    have "init_rows b (i + 1) (m @ [[i]]) =
            Some ((m @ [[i]]) @ map (\<lambda>k. [k]) [i + 1..<length b + 1])"
      using True "1.prems" put by (intro "1.IH") simp_all
    moreover have "[i..<length b + 1] = i # [i + 1..<length b + 1]"
      using True by (simp add: upt_conv_Cons)
    ultimately show ?thesis
      using True put by (subst init_rows.simps) simp
  next
    case False
    with "1.prems" have "i = length b + 1" by simp
    then show ?thesis by (subst init_rows.simps) simp
  qed
qed

lemma init_cols_from:
  "m \<noteq> [] \<Longrightarrow> m ! 0 = [0..<max 1 j] \<Longrightarrow> j \<le> length a + 1 \<Longrightarrow>
   init_cols a j m = Some (m[0 := [0..<length a + 1]])"
proof (induction a j m rule: init_cols.induct)
  case (1 a j m)
  show ?case
  proof (cases "j \<le> length a")
    case True
    have row: "arr_put (m ! 0) j j = Some [0..<max 1 (j + 1)]"
    proof (cases "j = 0")
      case True
      then show ?thesis using "1.prems" by (simp add: arr_put_def)
    next
      case False
      then have "max 1 j = j" "max 1 (j + 1) = j + 1" by simp_all
      then show ?thesis using "1.prems" by (simp add: arr_put_def)
    qed
    have put: "mat_put m 0 j j = Some (m[0 := [0..<max 1 (j + 1)]])"
      using "1.prems" row by (simp add: mat_put_def)
    have "init_cols a (j + 1) (m[0 := [0..<max 1 (j + 1)]]) =
            Some ((m[0 := [0..<max 1 (j + 1)]])[0 := [0..<length a + 1]])"
      using True "1.prems" put by (intro "1.IH") simp_all
    then show ?thesis
      using True put by (subst init_cols.simps) simp
  next
    case False
    with "1.prems" have j: "j = length a + 1" by simp
    then have "m[0 := [0..<length a + 1]] = m"
      using "1.prems" by (simp add: list_update_same_conv)
    then show ?thesis using j by (subst init_cols.simps) simp
  qed
qed

lemma length_dp_state [simp]: "length (dp_state a b i) = length b + 1"
  by (simp add: dp_state_def)

lemma nth_dp_state:
  "r \<le> length b \<Longrightarrow>
   dp_state a b i ! r = (if r < i then map (dist a b r) [0..<length a + 1] else [r])"
  unfolding dp_state_def by (simp add: nth_map_upt del: upt_Suc)

lemma dist_row0: "j \<le> length a \<Longrightarrow> dist a b 0 j = j"
  by (simp add: dist_def lev_Nil2)

lemma dist_col0: "i \<le> length b \<Longrightarrow> dist a b i 0 = i"
  by (simp add: dist_def)

lemma dist_step:
  assumes "1 \<le> i" "i \<le> length b" "1 \<le> j" "j \<le> length a"
  shows "dist a b i j =
           (if b ! (i - 1) = a ! (j - 1) then dist a b (i - 1) (j - 1)
            else min (dist a b (i - 1) (j - 1) + 1)
                   (min (dist a b i (j - 1) + 1) (dist a b (i - 1) j + 1)))"
proof -
  have ta: "take j a = take (j - 1) a @ [a ! (j - 1)]"
    using assms take_Suc_conv_app_nth [of "j - 1" a] by simp
  have tb: "take i b = take (i - 1) b @ [b ! (i - 1)]"
    using assms take_Suc_conv_app_nth [of "i - 1" b] by simp
  have "dist a b i j = levenshtein (take (j - 1) a @ [a ! (j - 1)]) (take (i - 1) b @ [b ! (i - 1)])"
    unfolding dist_def using ta tb by simp
  also have "\<dots> = (if a ! (j - 1) = b ! (i - 1) then levenshtein (take (j - 1) a) (take (i - 1) b)
                 else Suc (min (levenshtein (take (j - 1) a) (take (i - 1) b))
                   (min (levenshtein (take (j - 1) a @ [a ! (j - 1)]) (take (i - 1) b))
                        (levenshtein (take (j - 1) a) (take (i - 1) b @ [b ! (i - 1)])))))"
    by (rule levenshtein_snoc)
  also have "\<dots> = (if b ! (i - 1) = a ! (j - 1) then dist a b (i - 1) (j - 1)
            else min (dist a b (i - 1) (j - 1) + 1)
                   (min (dist a b i (j - 1) + 1) (dist a b (i - 1) j + 1)))"
    unfolding dist_def ta [symmetric] tb [symmetric] by (auto simp: min_def)
  finally show ?thesis .
qed

lemma dp_state_first: "dp_state a b 1 = (map (\<lambda>k. [k]) [0..<length b + 1])[0 := [0..<length a + 1]]"
proof (rule nth_equalityI)
  show "length (dp_state a b 1) = length ((map (\<lambda>k. [k]) [0..<length b + 1])[0 := [0..<length a + 1]])"
    by simp
next
  fix r assume "r < length (dp_state a b 1)"
  then have r: "r \<le> length b" by simp
  have "map (dist a b 0) [0..<length a + 1] = [0..<length a + 1]"
    by (rule nth_equalityI) (simp_all add: dist_row0 nth_map_upt del: upt_Suc)
  then show "dp_state a b 1 ! r = (map (\<lambda>k. [k]) [0..<length b + 1])[0 := [0..<length a + 1]] ! r"
    using r by (cases "r = 0") (simp_all add: nth_dp_state nth_map_upt nth_list_update del: upt_Suc)
qed

lemma dp_state_Suc:
  "i \<le> length b \<Longrightarrow>
   (dp_state a b i)[i := map (dist a b i) [0..<length a + 1]] = dp_state a b (Suc i)"
proof (rule nth_equalityI)
  show "length ((dp_state a b i)[i := map (dist a b i) [0..<length a + 1]]) = length (dp_state a b (Suc i))"
    by simp
next
  fix r assume "i \<le> length b" "r < length ((dp_state a b i)[i := map (dist a b i) [0..<length a + 1]])"
  then show "(dp_state a b i)[i := map (dist a b i) [0..<length a + 1]] ! r = dp_state a b (Suc i) ! r"
    by (cases "r = i") (auto simp: nth_dp_state nth_list_update simp del: upt_Suc)
qed

lemma dp_state_start_row:
  "i \<le> length b \<Longrightarrow> (dp_state a b i)[i := map (dist a b i) [0..<1]] = dp_state a b i"
  by (simp add: list_update_same_conv nth_dp_state dist_col0)

lemma cell_value_dp:
  assumes "1 \<le> i" "i \<le> length b" "1 \<le> j" "j \<le> length a"
  shows "cell_value a b i j ((dp_state a b i)[i := map (dist a b i) [0..<j]]) = Some (dist a b i j)"
proof -
  let ?m = "(dp_state a b i)[i := map (dist a b i) [0..<j]]"
  have prev: "?m ! (i - 1) = map (dist a b (i - 1)) [0..<length a + 1]"
    using assms by (simp add: nth_dp_state nth_list_update)
  have cur: "?m ! i = map (dist a b i) [0..<j]"
    using assms by simp
  have diag: "mat_get ?m (i - 1) (j - 1) = Some (dist a b (i - 1) (j - 1))"
    unfolding mat_get_def prev using assms by (auto simp add: nth_map_upt simp del: upt_Suc)
  have left: "mat_get ?m i (j - 1) = Some (dist a b i (j - 1))"
    unfolding mat_get_def cur using assms by (auto simp add: nth_map_upt simp del: upt_Suc)
  have up: "mat_get ?m (i - 1) j = Some (dist a b (i - 1) j)"
    unfolding mat_get_def prev using assms by (auto simp add: nth_map_upt simp del: upt_Suc)
  have "i - 1 < length b" "j - 1 < length a"
    using assms by simp_all
  then have chars: "(charAt b (i - 1) = charAt a (j - 1)) = (b ! (i - 1) = a ! (j - 1))"
    unfolding charAt_def by simp
  show ?thesis
    unfolding cell_value_def chars diag left up
    using dist_step [OF assms] by simp
qed

lemma inner_loop_dp:
  "1 \<le> i \<Longrightarrow> i \<le> length b \<Longrightarrow> 1 \<le> j \<Longrightarrow> j \<le> length a + 1 \<Longrightarrow>
   m = (dp_state a b i)[i := map (dist a b i) [0..<j]] \<Longrightarrow>
   inner_loop a b i j m = Some (dp_state a b (Suc i))"
proof (induction a b i j m rule: inner_loop.induct)
  case (1 a b i j m)
  show ?case
  proof (cases "j \<le> length a")
    case True
    have v: "cell_value a b i j m = Some (dist a b i j)"
      using "1.prems" True by (simp add: cell_value_dp)
    have "arr_put (m ! i) j (dist a b i j) = Some (map (dist a b i) [0..<j + 1])"
      using "1.prems" by (simp add: arr_put_def)
    then have put: "mat_put m i j (dist a b i j) =
                      Some ((dp_state a b i)[i := map (dist a b i) [0..<j + 1]])"
      using "1.prems" by (simp add: mat_put_def)
    have "inner_loop a b i (j + 1) ((dp_state a b i)[i := map (dist a b i) [0..<j + 1]])
            = Some (dp_state a b (Suc i))"
      using True "1.prems" v put by (intro "1.IH") simp_all
    then show ?thesis
      using True v put by (subst inner_loop.simps) simp
  next
    case False
    with "1.prems" have "j = length a + 1" by simp
    then show ?thesis
      using "1.prems" dp_state_Suc [of i b a] by (subst inner_loop.simps) simp
  qed
qed

lemma outer_loop_dp:
  "1 \<le> i \<Longrightarrow> i \<le> length b + 1 \<Longrightarrow> m = dp_state a b i \<Longrightarrow>
   outer_loop a b i m = Some (dp_state a b (length b + 1))"
proof (induction a b i m rule: outer_loop.induct)
  case (1 a b i m)
  show ?case
  proof (cases "i \<le> length b")
    case True
    have inner: "inner_loop a b i 1 m = Some (dp_state a b (Suc i))"
      using "1.prems" True dp_state_start_row [of i b a]
      by (intro inner_loop_dp) simp_all
    have "outer_loop a b (i + 1) (dp_state a b (Suc i)) = Some (dp_state a b (length b + 1))"
      using True "1.prems" inner by (intro "1.IH") simp_all
    then show ?thesis
      using True inner by (subst outer_loop.simps) simp
  next
    case False
    with "1.prems" have "i = length b + 1" by simp
    then show ?thesis using "1.prems" by (subst outer_loop.simps) simp
  qed
qed

lemma levenshteinDistance_classic: "levenshteinDistance a b = Some (levenshtein a b)"
proof -
  have m1: "init_rows b 0 [] = Some (map (\<lambda>k. [k]) [0..<length b + 1])"
    using init_rows_from [of "[]" 0 b] by simp
  have m2: "init_cols a 0 (map (\<lambda>k. [k]) [0..<length b + 1]) = Some (dp_state a b 1)"
    unfolding dp_state_first
    by (rule init_cols_from) (simp_all add: nth_map_upt upt_conv_Cons del: upt_Suc)
  have m3: "outer_loop a b 1 (dp_state a b 1) = Some (dp_state a b (length b + 1))"
    by (rule outer_loop_dp) simp_all
  have "mat_get (dp_state a b (length b + 1)) (length b) (length a) = Some (dist a b (length b) (length a))"
    by (simp add: mat_get_def nth_dp_state nth_map_upt del: upt_Suc)
  then show ?thesis
    unfolding levenshteinDistance_def m1 m2 m3 Option.bind.bind_lunit by (simp add: dist_def)
qed

subsection \<open>Domain matching\<close>

lemma distance_bank_secure: "levenshteinDistance ''bank-secure.com'' ''bank.com'' = Some 7"
  by code_simp

lemma distance_totallydifferent:
  "levenshteinDistance ''totallydifferent.org'' ''bank.com'' = Some 17"
  by code_simp

lemma distance_bamk: "levenshteinDistance ''bamk.com'' ''bank.com'' = Some 1"
  by code_simp

lemma toLowerCase_scenarios:
  "toLowerCase ''bank.com'' = ''bank.com''"
  "toLowerCase ''bamk.com'' = ''bamk.com''"
  "toLowerCase ''bank-secure.com'' = ''bank-secure.com''"
  "toLowerCase ''totallydifferent.org'' = ''totallydifferent.org''"
  by (simp_all add: toLowerCase_def lower_char_def)

lemma lower_char_not_upper:
  "\<not> (65 \<le> (of_char (lower_char c) :: nat) \<and> (of_char (lower_char c) :: nat) \<le> 90)"
proof -
  have "(of_char c :: nat) < 256" by simp
  then show ?thesis
    by (auto simp: lower_char_def Let_def)
qed

text \<open>
  C4 (as the specification states it, refuted): the hostnames \<^verbatim>\<open>bank-secure.com\<close> and
  \<^verbatim>\<open>bank.com\<close> would be at distance at most 2 and the match would give a phishing warning.
  Their distance is \<open>7\<close>, and \<^verbatim>\<open>checkDomainMatch\<close> gives the plain mismatch warning.
\<close>

theorem matchDomain_bank_secure_counterexample:
  "checkDomainMatch scenario_URL_hostname ''https://bank-secure.com'' ''https://bank.com''
     = Some \<lparr>isMatch = False, warning = Some ''Domain mismatch''\<rparr>
   \<and> levenshteinDistance ''bank-secure.com'' ''bank.com'' = Some 7
   \<and> \<not> (7 \<le> (2::nat))"
  by (simp add: checkDomainMatch_def extractDomain_def scenario_URL_hostname_def
      toLowerCase_scenarios distance_bank_secure)

text \<open>
  C4 (amended): for a URL parser that gives the four URLs their hostnames,
  \<^verbatim>\<open>https://bank.com/login\<close> against \<^verbatim>\<open>https://bank.com\<close> is a match with no warning;
  \<^verbatim>\<open>https://bank-secure.com\<close> against \<^verbatim>\<open>https://bank.com\<close> has hostname edit distance
  \<open>7\<close> and gives the plain warning \<^verbatim>\<open>Domain mismatch\<close>, with no phishing language;
  \<^verbatim>\<open>https://totallydifferent.org\<close> against \<^verbatim>\<open>https://bank.com\<close> gives the same plain
  warning.
\<close>

theorem matchDomain_scenarios:
  assumes "URL_hostname ''https://bank.com/login'' = Some ''bank.com''"
    and "URL_hostname ''https://bank.com'' = Some ''bank.com''"
    and "URL_hostname ''https://bank-secure.com'' = Some ''bank-secure.com''"
    and "URL_hostname ''https://totallydifferent.org'' = Some ''totallydifferent.org''"
  shows "checkDomainMatch URL_hostname ''https://bank.com/login'' ''https://bank.com''
       = Some \<lparr>isMatch = True, warning = None\<rparr>
    \<and> levenshtein ''bank-secure.com'' ''bank.com'' = 7
    \<and> checkDomainMatch URL_hostname ''https://bank-secure.com'' ''https://bank.com''
       = Some \<lparr>isMatch = False, warning = Some ''Domain mismatch''\<rparr>
    \<and> checkDomainMatch URL_hostname ''https://totallydifferent.org'' ''https://bank.com''
       = Some \<lparr>isMatch = False, warning = Some ''Domain mismatch''\<rparr>"
proof -
  have "levenshtein ''bank-secure.com'' ''bank.com'' = 7"
    using distance_bank_secure by (simp only: levenshteinDistance_classic option.inject)
  then show ?thesis
    using assms
    by (simp add: checkDomainMatch_def extractDomain_def toLowerCase_scenarios
        distance_bank_secure distance_totallydifferent)
qed

text \<open>Witness for C4 (amended): the table of the scenario URLs.\<close>

theorem matchDomain_scenarios_witness:
  "checkDomainMatch scenario_URL_hostname ''https://bank.com/login'' ''https://bank.com''
     = Some \<lparr>isMatch = True, warning = None\<rparr>
   \<and> levenshtein ''bank-secure.com'' ''bank.com'' = 7
   \<and> checkDomainMatch scenario_URL_hostname ''https://bank-secure.com'' ''https://bank.com''
     = Some \<lparr>isMatch = False, warning = Some ''Domain mismatch''\<rparr>
   \<and> checkDomainMatch scenario_URL_hostname ''https://totallydifferent.org'' ''https://bank.com''
     = Some \<lparr>isMatch = False, warning = Some ''Domain mismatch''\<rparr>"
  using matchDomain_scenarios [of scenario_URL_hostname]
  by (simp add: scenario_URL_hostname_def)

text \<open>
  C6 (as the specification states it, refuted): two well-formed URLs with exactly equal
  hostnames would always be a match. A \<^verbatim>\<open>file:\<close> URL is well-formed and its hostname is
  empty; compared with itself, \<^verbatim>\<open>checkDomainMatch\<close> answers \<^verbatim>\<open>Invalid URL\<close>.
\<close>

theorem checkDomainMatch_empty_hostname_counterexample:
  "scenario_URL_hostname ''file:///home/user/login.html'' = Some []
   \<and> checkDomainMatch scenario_URL_hostname
         ''file:///home/user/login.html'' ''file:///home/user/login.html''
       = Some \<lparr>isMatch = False, warning = Some ''Invalid URL''\<rparr>"
  by (simp add: checkDomainMatch_def extractDomain_def scenario_URL_hostname_def toLowerCase_def)

text \<open>
  C6 (amended): \<^verbatim>\<open>extractDomain\<close> gives the empty text for a malformed URL and otherwise the
  hostname in lower case (no letter \<^verbatim>\<open>A\<close> to \<^verbatim>\<open>Z\<close> is left). For every pair of URLs,
  \<^verbatim>\<open>checkDomainMatch\<close> returns \<^verbatim>\<open>{isMatch:false, warning:"Invalid URL"}\<close> if either URL is
  malformed or has an empty hostname; otherwise \<^verbatim>\<open>{isMatch:true}\<close> with no warning if the
  lower-case hostnames are equal; otherwise \<^verbatim>\<open>{isMatch:false}\<close> with the phishing warning
  naming both hostnames if their classic Levenshtein distance \<open>d\<close> satisfies
  \<open>0 < d \<le> 2\<close>; and \<^verbatim>\<open>{isMatch:false}\<close> with the plain mismatch warning for any other
  distance.
\<close>

theorem checkDomainMatch_cases:
  "checkDomainMatch URL_hostname currentUrl storedUrl =
     Some (let c = extractDomain URL_hostname currentUrl;
               s = extractDomain URL_hostname storedUrl
           in if c = [] \<or> s = [] then \<lparr>isMatch = False, warning = Some ''Invalid URL''\<rparr>
              else if c = s then \<lparr>isMatch = True, warning = None\<rparr>
              else if 0 < levenshtein c s \<and> levenshtein c s \<le> 2
                then \<lparr>isMatch = False, warning = Some (phishing_warning c s)\<rparr>
              else \<lparr>isMatch = False, warning = Some ''Domain mismatch''\<rparr>)
   \<and> (URL_hostname currentUrl = None \<or> URL_hostname storedUrl = None \<longrightarrow>
        checkDomainMatch URL_hostname currentUrl storedUrl
          = Some \<lparr>isMatch = False, warning = Some ''Invalid URL''\<rparr>)
   \<and> (URL_hostname url = None \<longrightarrow> extractDomain URL_hostname url = [])
   \<and> (\<forall>h. URL_hostname url = Some h \<longrightarrow> extractDomain URL_hostname url = toLowerCase h)
   \<and> (\<forall>ch\<in>set (extractDomain URL_hostname url).
         \<not> (65 \<le> (of_char ch :: nat) \<and> (of_char ch :: nat) \<le> 90))"
proof -
  have "\<forall>ch\<in>set (extractDomain URL_hostname url).
         \<not> (65 \<le> (of_char ch :: nat) \<and> (of_char ch :: nat) \<le> 90)"
    using lower_char_not_upper
    by (auto simp: extractDomain_def toLowerCase_def split: option.splits)
  moreover have "URL_hostname currentUrl = None \<or> URL_hostname storedUrl = None \<longrightarrow>
        checkDomainMatch URL_hostname currentUrl storedUrl
          = Some \<lparr>isMatch = False, warning = Some ''Invalid URL''\<rparr>"
    by (auto simp: checkDomainMatch_def extractDomain_def)
  ultimately show ?thesis
    by (simp add: checkDomainMatch_def Let_def levenshteinDistance_classic extractDomain_def)
qed

text \<open>
  Witness for C6 (amended): \<^verbatim>\<open>https://bamk.com\<close> against \<^verbatim>\<open>https://bank.com\<close>, at distance
  \<open>1\<close>, gets the phishing warning naming both hostnames; a text that is not a URL gives the
  empty domain.
\<close>

theorem checkDomainMatch_cases_witness:
  "checkDomainMatch scenario_URL_hostname ''https://bamk.com'' ''https://bank.com''
     = Some \<lparr>isMatch = False, warning = Some (phishing_warning ''bamk.com'' ''bank.com'')\<rparr>
   \<and> scenario_URL_hostname ''not a url'' = None
   \<and> checkDomainMatch scenario_URL_hostname ''not a url'' ''https://bank.com''
     = Some \<lparr>isMatch = False, warning = Some ''Invalid URL''\<rparr>
   \<and> extractDomain scenario_URL_hostname ''not a url'' = []
   \<and> scenario_URL_hostname ''https://bank.com'' = Some ''bank.com''
   \<and> extractDomain scenario_URL_hostname ''https://bank.com'' = ''bank.com''
   \<and> set (extractDomain scenario_URL_hostname ''https://bank.com'') \<noteq> {}"
proof -
  have d: "levenshtein ''bamk.com'' ''bank.com'' = 1"
    using distance_bamk by (simp only: levenshteinDistance_classic option.inject)
  have x: "extractDomain scenario_URL_hostname ''https://bamk.com'' = ''bamk.com''"
    "extractDomain scenario_URL_hostname ''https://bank.com'' = ''bank.com''"
    by (simp_all add: extractDomain_def scenario_URL_hostname_def toLowerCase_scenarios)
  have u: "scenario_URL_hostname ''not a url'' = None"
    "scenario_URL_hostname ''https://bank.com'' = Some ''bank.com''"
    by (simp_all add: scenario_URL_hostname_def)
  show ?thesis
    using checkDomainMatch_cases
        [of scenario_URL_hostname "''https://bamk.com''" "''https://bank.com''" "''not a url''"]
      checkDomainMatch_cases
        [of scenario_URL_hostname "''not a url''" "''https://bank.com''" "''https://bank.com''"]
    unfolding x d u by (simp add: x)
qed

subsection \<open>Base64 round trip\<close>

text \<open>Four 6-bit groups hold three bytes: splitting and joining are inverse.\<close>

lemma join_div: "t < k \<Longrightarrow> (m * k + t) div k = (m::nat)"
  by simp

lemma join_mod: "t < k \<Longrightarrow> (m * k + t) mod k = (t::nat)"
  by simp

lemma join_bound: "m < a \<Longrightarrow> t < k \<Longrightarrow> m * k + t < a * (k::nat)"
proof -
  assume "m < a" "t < k"
  then have "m * k + t < m * k + k" by simp
  also have "\<dots> = Suc m * k" by simp
  also have "\<dots> \<le> a * k" using \<open>m < a\<close> by (intro mult_le_mono1) simp
  finally show ?thesis .
qed

lemma byte_parts:
  fixes b :: nat
  assumes "b < 256"
  shows "b div 4 < 64" "b div 16 < 16" "b div 64 < 4"
  using assms by (simp_all add: less_mult_imp_div_less)

lemma decode_first:
  "b1 < 256 \<Longrightarrow> (b0 div 4) * 4 + ((b0 mod 4) * 16 + b1 div 16) div 16 = (b0::nat)"
  by (simp add: join_div byte_parts)

lemma decode_second:
  "b1 < 256 \<Longrightarrow> b2 < 256 \<Longrightarrow>
   (((b0 mod 4) * 16 + b1 div 16) mod 16) * 16 + ((b1 mod 16) * 4 + b2 div 64) div 4 = (b1::nat)"
  by (simp add: join_div join_mod byte_parts)

lemma decode_third:
  "b2 < 256 \<Longrightarrow> (((b1 mod 16) * 4 + b2 div 64) mod 4) * 64 + b2 mod 64 = (b2::nat)"
  by (simp add: join_mod byte_parts)

lemma octets_sextets: "\<forall>b\<in>set bs. b < 256 \<Longrightarrow> octets (sextets bs) = bs"
proof (induction bs rule: sextets.induct)
  case (1 b0 b1 b2 bs)
  then have "b0 < 256" "b1 < 256" "b2 < 256" by simp_all
  with 1 show ?case
    by (simp add: decode_first decode_second decode_third)
next
  case (2 b0 b1)
  then have b: "b0 < 256" "b1 < 256" by simp_all
  have "((b1 mod 16) * 4) div 4 = b1 mod 16" by simp
  with b show ?case
    using decode_first [of b1 b0] by (simp add: join_mod byte_parts)
next
  case (3 b0)
  show ?case by simp
next
  case 4
  show ?case by simp
qed

lemma sextets_bound: "\<forall>b\<in>set bs. b < 256 \<Longrightarrow> \<forall>s\<in>set (sextets bs). s < 64"
proof (induction bs rule: sextets.induct)
  case (1 b0 b1 b2 bs)
  then have b: "b0 < 256" "b1 < 256" "b2 < 256" by simp_all
  have "(b0 mod 4) * 16 + b1 div 16 < 4 * 16"
    using b by (intro join_bound) (simp_all add: byte_parts)
  moreover have "(b1 mod 16) * 4 + b2 div 64 < 16 * 4"
    using b by (intro join_bound) (simp_all add: byte_parts)
  ultimately show ?case using 1 b by (simp add: byte_parts)
next
  case (2 b0 b1)
  then have b: "b0 < 256" "b1 < 256" by simp_all
  have "(b0 mod 4) * 16 + b1 div 16 < 4 * 16"
    using b by (intro join_bound) (simp_all add: byte_parts)
  moreover have "(b1 mod 16) * 4 + 0 < 16 * 4"
    by (intro join_bound) simp_all
  ultimately show ?case using b by (simp add: byte_parts)
next
  case (3 b0)
  then have b: "b0 < 256" by simp
  have "(b0 mod 4) * 16 + 0 < 4 * 16"
    by (intro join_bound) simp_all
  then show ?case using b by (simp add: byte_parts)
next
  case 4
  show ?case by simp
qed

lemma padding_Suc3: "padding (Suc (Suc (Suc n))) = padding n"
proof -
  have "Suc (Suc (Suc n)) mod 3 = n mod 3" by presburger
  then show ?thesis by (simp add: padding_def)
qed

lemma sextets_shape:
  "length (sextets bs) mod 4 \<noteq> 1
   \<and> (length (sextets bs) + length (padding (length bs))) mod 4 = 0
   \<and> length (padding (length bs)) \<le> 2"
proof (induction bs rule: sextets.induct)
  case (1 b0 b1 b2 bs)
  then show ?case by (simp add: padding_Suc3)
next
  case (2 b0 b1)
  show ?case by (simp add: padding_def)
next
  case (3 b0)
  show ?case by (simp add: padding_def)
next
  case 4
  show ?case by (simp add: padding_def)
qed

lemma index_of_nth: "distinct xs \<Longrightarrow> n < length xs \<Longrightarrow> index_of (xs ! n) xs = Some n"
proof (induction xs arbitrary: n)
  case Nil
  then show ?case by simp
next
  case (Cons x xs)
  then show ?case by (cases n) auto
qed

lemma length_alphabet: "length base64_alphabet = 64"
  by (simp add: base64_alphabet_def)

lemma distinct_alphabet: "distinct base64_alphabet"
  by (simp add: base64_alphabet_def)

lemma alphabet_plain: "\<forall>c\<in>set base64_alphabet. c \<noteq> CHR ''='' \<and> \<not> ascii_whitespace c"
  by (simp add: base64_alphabet_def ascii_whitespace_def)

lemma b64_index_char: "n < 64 \<Longrightarrow> b64_index (b64_char n) = Some n"
  by (simp add: b64_index_def b64_char_def index_of_nth distinct_alphabet length_alphabet)

lemma b64_char_plain: "n < 64 \<Longrightarrow> b64_char n \<noteq> CHR ''='' \<and> \<not> ascii_whitespace (b64_char n)"
  using alphabet_plain nth_mem [of n base64_alphabet]
  by (simp add: b64_char_def length_alphabet)

lemma those_index:
  "\<forall>s\<in>set ss. s < 64 \<Longrightarrow> those (map b64_index (map b64_char ss)) = Some ss"
  by (induction ss) (simp_all add: b64_index_char)

lemma no_whitespace:
  assumes "\<forall>s\<in>set ss. s < 64"
  shows "filter (\<lambda>c. \<not> ascii_whitespace c) (map b64_char ss @ padding n)
           = map b64_char ss @ padding n"
proof (rule filter_True)
  have "\<not> ascii_whitespace (CHR ''='')"
    by (simp add: ascii_whitespace_def)
  moreover have "\<not> ascii_whitespace (b64_char s)" if "s \<in> set ss" for s
    using that assms b64_char_plain by blast
  ultimately show "\<forall>c\<in>set (map b64_char ss @ padding n). \<not> ascii_whitespace c"
    by (auto simp: padding_def)
qed

lemma strip_padding_encoded:
  assumes "\<forall>c\<in>set cs. c \<noteq> CHR ''=''"
    and "(length cs + k) mod 4 = 0" and "k \<le> 2"
  shows "strip_padding (cs @ replicate k (CHR ''='')) = cs"
proof -
  consider "k = 0" | "k = 1" | "k = 2" using assms(3) by linarith
  then show ?thesis
  proof cases
    case 1
    then show ?thesis using assms by (cases cs rule: rev_cases) (auto simp: strip_padding_def)
  next
    case 2
    with assms(2) have "cs \<noteq> []" by auto
    then obtain c cs' where cs: "cs = cs' @ [c]" by (cases cs rule: rev_cases) auto
    with assms(1) have c: "c \<noteq> CHR ''=''" by simp
    have d: "cs @ replicate k (CHR ''='') = (cs' @ [c]) @ [CHR ''='']"
      using 2 cs by simp
    show ?thesis
      unfolding d strip_padding_def butlast_snoc last_snoc
      using c 2 assms(2) cs by simp
  next
    case 3
    then have "replicate k (CHR ''='') = [CHR ''='', CHR ''='']" by (simp add: numeral_2_eq_2)
    then show ?thesis using 3 assms(2) by (simp add: strip_padding_def butlast_append)
  qed
qed

lemma b64_decode_encode: "\<forall>b\<in>set bs. b < 256 \<Longrightarrow> b64_decode (b64_encode bs) = Some bs"
proof -
  assume bytes: "\<forall>b\<in>set bs. b < 256"
  let ?cs = "map b64_char (sextets bs)"
  have small: "\<forall>s\<in>set (sextets bs). s < 64" using bytes by (rule sextets_bound)
  have shape: "length (sextets bs) mod 4 \<noteq> 1"
    "(length (sextets bs) + length (padding (length bs))) mod 4 = 0"
    "length (padding (length bs)) \<le> 2"
    using sextets_shape [of bs] by simp_all
  have "\<forall>c\<in>set ?cs. c \<noteq> CHR ''=''" using small by (auto simp: b64_char_plain)
  then have "strip_padding (?cs @ replicate (length (padding (length bs))) (CHR ''='')) = ?cs"
    using shape by (intro strip_padding_encoded) simp_all
  moreover have "replicate (length (padding (length bs))) (CHR ''='') = padding (length bs)"
    by (simp add: padding_def)
  ultimately have strip: "strip_padding (?cs @ padding (length bs)) = ?cs" by simp
  show ?thesis
    unfolding b64_decode_def b64_encode_def no_whitespace [OF small] strip Let_def
      those_index [OF small]
    using shape(1) by (simp add: octets_sextets [OF bytes])
qed

lemma binary_loop_from:
  "i \<le> length buffer \<Longrightarrow>
   binary_loop buffer i binary = binary @ map fromCharCode (drop i buffer)"
proof (induction buffer i binary rule: binary_loop.induct)
  case (1 buffer i binary)
  show ?case
  proof (cases "i < length buffer")
    case True
    then have "drop i buffer = buffer ! i # drop (i + 1) buffer"
      by (simp add: Cons_nth_drop_Suc)
    with True "1.IH" show ?thesis by (subst binary_loop.simps) simp
  next
    case False
    with "1.prems" show ?thesis by (subst binary_loop.simps) simp
  qed
qed

lemma bytes_loop_from:
  "length bytes = len \<Longrightarrow> length s = len \<Longrightarrow> i \<le> len \<Longrightarrow>
   bytes_loop s len i bytes = take i bytes @ map ucast (drop i s)"
proof (induction s len i bytes rule: bytes_loop.induct)
  case (1 s len i bytes)
  show ?case
  proof (cases "i < len")
    case True
    have "bytes_loop s len (i + 1) (bytes[i := to_uint8 (charCodeAt s i)])
            = take (i + 1) (bytes[i := to_uint8 (charCodeAt s i)]) @ map ucast (drop (i + 1) s)"
      using True "1.prems" by (intro "1.IH") simp_all
    moreover have "take (i + 1) (bytes[i := to_uint8 (charCodeAt s i)]) = take i bytes @ [ucast (s ! i)]"
      using True "1.prems" by (simp add: take_Suc_conv_app_nth charCodeAt_def to_uint8_def)
    moreover have "drop i s = s ! i # drop (i + 1) s"
      using True "1.prems" by (simp add: Cons_nth_drop_Suc)
    ultimately show ?thesis using True by (subst bytes_loop.simps) simp
  next
    case False
    with "1.prems" show ?thesis by (subst bytes_loop.simps) simp
  qed
qed

lemma unat_byte: "unat (b :: byte) < 256"
  using unsigned_less [of b, where 'a = nat] by simp

lemma unat_fromCharCode: "unat (fromCharCode b) = unat b"
proof -
  have "unat b < 2 ^ 16"
    using unat_byte [of b] by simp
  then show ?thesis
    unfolding fromCharCode_def unsigned_ucast_eq by (simp add: take_bit_nat_eq_self)
qed

lemma btoa_binary:
  "btoa (map fromCharCode buffer) = Some (b64_encode (map unat buffer))"
proof -
  have "fromCharCode b \<le> 0xFF" for b
  proof -
    have "unat (fromCharCode b) < 256" using unat_byte [of b] by (simp add: unat_fromCharCode)
    then show ?thesis by (simp add: word_le_nat_alt)
  qed
  then have small: "list_all (\<lambda>c. c \<le> 0xFF) (map fromCharCode buffer)"
    by (simp add: list_all_iff)
  have m: "map unat (map fromCharCode buffer) = map unat buffer"
    by (induction buffer) (simp_all add: unat_fromCharCode)
  show ?thesis
    unfolding btoa_def m using small by simp
qed

lemma arrayBufferToBase64_encode: "arrayBufferToBase64 b = Some (b64_encode (map unat b))"
  using binary_loop_from [of 0 b "[]"] by (simp add: arrayBufferToBase64_def btoa_binary)

lemma base64ToArrayBuffer_encode: "base64ToArrayBuffer (b64_encode (map unat b)) = Some b"
proof -
  have "\<forall>n\<in>set (map unat b). n < 256"
    by (simp add: unat_byte)
  then have dec: "atob (b64_encode (map unat b)) = Some (map of_nat (map unat b))"
    by (simp add: atob_def b64_decode_encode)
  have "bytes_loop (map of_nat (map unat b)) (length b) 0 (replicate (length b) 0)
          = map ucast (map of_nat (map unat b) :: code_unit list)"
    using bytes_loop_from [of "replicate (length b) 0" "length b" "map of_nat (map unat b)" 0]
    by simp
  also have "\<dots> = b"
    by (simp add: map_idI ucast_up_ucast_id is_up)
  finally show ?thesis
    by (simp add: base64ToArrayBuffer_def dec)
qed

text \<open>
  C10: for every byte array \<open>b\<close>, \<^verbatim>\<open>arrayBufferToBase64\<close> returns a text (it does not
  throw), and \<^verbatim>\<open>base64ToArrayBuffer\<close> applied to that text returns a byte array equal to
  \<open>b\<close>.
\<close>

theorem base64_roundtrip:
  "arrayBufferToBase64 b \<bind> base64ToArrayBuffer = Some b"
  by (simp add: arrayBufferToBase64_encode base64ToArrayBuffer_encode)

subsection \<open>Secret cipher\<close>


lemma base64_noncanonical: "base64ToArrayBuffer ''AB=='' = base64ToArrayBuffer ''AA==''"
  by code_simp






end
